theory Spec2Isabelle
  imports Main "HOL-Library.Sublist" "HOL-Library.Char_ord" "HOL-Library.List_Lexorder"
begin

text \<open>
  A shallow embedding of the image discovery and acquisition pipeline: the URL classifier
  and the URL list file of \<^verbatim>\<open>extract_instagram_urls.py\<close>, the two discovery channels and the
  scrolling loop of \<^verbatim>\<open>instagram_scraper_automated.py\<close>, and the downloader of
  \<^verbatim>\<open>download_instagram_images.py\<close>. Each Python function keeps its name. What a function
  takes from outside (the browser, the remote host, the file system, the process) is a
  parameter or a field of a state that is passed along; an exception is a value.
\<close>

section \<open>Python strings\<close>

text \<open>
  A Python \<open>str\<close> is modelled as a \<open>string\<close> (a list of characters with code points
  below 256). On that range the regular-expression class \<open>\d\<close> is exactly \<open>0..9\<close> and the
  characters removed by \<open>str.strip()\<close> are the ones listed in \<open>is_space\<close>.
\<close>

text \<open>\<open>sub in s\<close>: \<open>sub\<close> occurs in \<open>s\<close> as a contiguous substring.\<close>

fun py_in :: "string \<Rightarrow> string \<Rightarrow> bool" where
  "py_in sub [] = (sub = [])"
| "py_in sub (c # cs) = (prefix sub (c # cs) \<or> py_in sub cs)"

definition is_digit :: "char \<Rightarrow> bool" where
  "is_digit c = (c \<in> set ''0123456789'')"

text \<open>\<open>int(ds)\<close> for a string of decimal digits.\<close>

definition digit_val :: "char \<Rightarrow> nat" where
  "digit_val c = of_char c - 48"

definition int_of_digits :: "string \<Rightarrow> nat" where
  "int_of_digits ds = foldl (\<lambda>a c. 10 * a + digit_val c) 0 ds"

section \<open>URL Classifier (extract\_instagram\_urls.py)\<close>

text \<open>
  The pattern \<open>[ps](\d{3,4})x\d{3,4}\<close> matched at the head of a string. The first
  repetition is greedy: four digits are tried first, three digits after that. The result
  is \<open>int(group(1))\<close>.
\<close>

definition x_then_digits :: "string \<Rightarrow> bool" where
  "x_then_digits t =
     (case t of
        [] \<Rightarrow> False
      | c # r \<Rightarrow> c = CHR ''x'' \<and> length (take 3 r) = 3 \<and> list_all is_digit (take 3 r))"

definition match_size_here :: "string \<Rightarrow> nat option" where
  "match_size_here s =
     (case s of
        [] \<Rightarrow> None
      | c # r \<Rightarrow>
          if c = CHR ''p'' \<or> c = CHR ''s'' then
            if length (take 4 r) = 4 \<and> list_all is_digit (take 4 r) \<and> x_then_digits (drop 4 r)
            then Some (int_of_digits (take 4 r))
            else if length (take 3 r) = 3 \<and> list_all is_digit (take 3 r) \<and> x_then_digits (drop 3 r)
            then Some (int_of_digits (take 3 r))
            else None
          else None)"

text \<open>\<open>re.search\<close>: the match at the leftmost position that has one.\<close>

fun search_size :: "string \<Rightarrow> nat option" where
  "search_size [] = None"
| "search_size (c # cs) =
     (case match_size_here (c # cs) of
        Some n \<Rightarrow> Some n
      | None \<Rightarrow> search_size cs)"

text \<open>The sizes of the matches at all positions, left to right.\<close>

fun size_tokens :: "string \<Rightarrow> nat list" where
  "size_tokens [] = []"
| "size_tokens (c # cs) =
     (case match_size_here (c # cs) of
        Some n \<Rightarrow> n # size_tokens cs
      | None \<Rightarrow> size_tokens cs)"

definition profile_token :: string where
  "profile_token = ''/t51.2885-19/''"

definition small_tokens :: "string list" where
  "small_tokens = [''_s150x150'', ''_s100x100'', ''s150x150'', ''s100x100'']"

definition post_tokens :: "string list" where
  "post_tokens = [''/t51.82787-15/'', ''/t51.75761-15/'', ''/t51.71878-15/'']"

definition thumb_tokens :: "string list" where
  "thumb_tokens = [''_s150'', ''_s100'', ''s150x150'', ''s100x100'']"

definition cdn_family :: "string \<Rightarrow> bool" where
  "cdn_family url = (py_in ''instagram'' url \<or> py_in ''fbcdn.net'' url)"

definition is_full_size_image :: "string \<Rightarrow> bool" where
  "is_full_size_image url =
     (if py_in profile_token url then False
      else if list_ex (\<lambda>p. py_in p url) small_tokens then False
      else if list_ex (\<lambda>p. py_in p url) post_tokens then True
      else if (case search_size url of Some n \<Rightarrow> 640 \<le> n | None \<Rightarrow> False) then True
      else if cdn_family url \<and> \<not> list_ex (\<lambda>p. py_in p url) thumb_tokens then True
      else False)"

section \<open>More string operations\<close>

text \<open>\<open>str.isspace\<close> on code points below 256.\<close>

definition is_space :: "char \<Rightarrow> bool" where
  "is_space c =
     (let n = (of_char c :: nat)
      in (9 \<le> n \<and> n \<le> 13) \<or> (28 \<le> n \<and> n \<le> 32) \<or> n = 133 \<or> n = 160)"

text \<open>\<open>s.strip()\<close>\<close>

definition strip :: "string \<Rightarrow> string" where
  "strip s = rev (dropWhile is_space (rev (dropWhile is_space s)))"

text \<open>\<open>s.split()\<close>: the maximal runs of non-space characters; \<open>cur\<close> is the run being
  read, reversed.\<close>

fun split_ws_acc :: "string \<Rightarrow> string \<Rightarrow> string list" where
  "split_ws_acc cur [] = (if cur = [] then [] else [rev cur])"
| "split_ws_acc cur (c # cs) =
     (if is_space c
      then (if cur = [] then split_ws_acc [] cs else rev cur # split_ws_acc [] cs)
      else split_ws_acc (c # cur) cs)"

definition split_ws :: "string \<Rightarrow> string list" where
  "split_ws s = split_ws_acc [] s"

text \<open>\<open>s.split(sep)\<close> for a one-character separator: always at least one piece.\<close>

fun split_on_acc :: "char \<Rightarrow> string \<Rightarrow> string \<Rightarrow> string list" where
  "split_on_acc sep cur [] = [rev cur]"
| "split_on_acc sep cur (c # cs) =
     (if c = sep then rev cur # split_on_acc sep [] cs else split_on_acc sep (c # cur) cs)"

definition split_on :: "char \<Rightarrow> string \<Rightarrow> string list" where
  "split_on sep s = split_on_acc sep [] s"

section \<open>Discovery channels (instagram\_scraper\_automated.py)\<close>

text \<open>
  Both channels of the scraper apply the same inline test before \<open>urls.add\<close>: the URL
  mentions the CDN family and none of three tokens. The scraper never calls
  \<open>is_full_size_image\<close>.
\<close>

definition scraper_skip_tokens :: "string list" where
  "scraper_skip_tokens = [''_s150x150'', ''_s100x100'', ''/t51.2885-19/'']"

definition inline_admit :: "string \<Rightarrow> bool" where
  "inline_admit u = (cdn_family u \<and> \<not> list_ex (\<lambda>p. py_in p u) scraper_skip_tokens)"

text \<open>An \<open>img\<close> element as the driver shows it: its \<open>src\<close> and \<open>srcset\<close> attributes,
  \<open>None\<close> when the attribute is absent.\<close>

record img =
  src :: "string option"
  srcset :: "string option"

text \<open>
  The loop over \<open>srcset.split(',')\<close>. \<open>src_url.strip().split()[0]\<close> raises
  \<open>IndexError\<close> on an entry without a token; the flag \<open>False\<close> is that exception.
\<close>

fun srcset_loop :: "string list \<Rightarrow> string set \<Rightarrow> bool \<times> string set" where
  "srcset_loop [] urls = (True, urls)"
| "srcset_loop (e # es) urls =
     (case split_ws (strip e) of
        [] \<Rightarrow> (False, urls)
      | src_url # _ \<Rightarrow>
          srcset_loop es (if inline_admit src_url then insert src_url urls else urls))"

text \<open>The loop over the \<open>img\<close> elements. An exception leaves the loop; the
  \<open>except\<close> clause reports it and the function returns what was collected so far.\<close>

fun dom_loop :: "img list \<Rightarrow> string set \<Rightarrow> bool \<times> string set" where
  "dom_loop [] urls = (True, urls)"
| "dom_loop (i # imgs) urls =
     (let urls1 =
        (case src i of
           None \<Rightarrow> urls
         | Some s \<Rightarrow> if s \<noteq> [] \<and> inline_admit s then insert s urls else urls)
      in case srcset i of
           None \<Rightarrow> dom_loop imgs urls1
         | Some ss \<Rightarrow>
             if ss = [] then dom_loop imgs urls1
             else (case srcset_loop (split_on CHR '','' ss) urls1 of
                     (True, urls2) \<Rightarrow> dom_loop imgs urls2
                   | (False, urls2) \<Rightarrow> (False, urls2)))"

definition extract_image_urls_from_dom :: "img list \<Rightarrow> string set" where
  "extract_image_urls_from_dom images = snd (dom_loop images {})"

text \<open>
  A performance-log entry after \<open>json.loads\<close>: its method and, under
  \<open>params.response\<close>, the optional \<open>url\<close> and \<open>mimeType\<close>. \<open>BadEntry\<close> is an entry
  on which decoding or a key lookup raises; so is a \<open>responseReceived\<close> event without a
  response.
\<close>

record net_response =
  resp_url :: "string option"
  resp_mime :: "string option"

datatype log_entry = BadEntry | LogEvent string "net_response option"

definition or_empty :: "string option \<Rightarrow> string" where
  "or_empty v = (case v of None \<Rightarrow> [] | Some s \<Rightarrow> s)"

fun log_loop :: "log_entry list \<Rightarrow> string set \<Rightarrow> bool \<times> string set" where
  "log_loop [] urls = (True, urls)"
| "log_loop (BadEntry # ls) urls = (False, urls)"
| "log_loop (LogEvent m r # ls) urls =
     (if m = ''Network.responseReceived'' then
        (case r of
           None \<Rightarrow> (False, urls)
         | Some response \<Rightarrow>
             (let url = or_empty (resp_url response); mime_type = or_empty (resp_mime response)
              in if py_in ''image'' mime_type \<and> cdn_family url
                 then log_loop ls (if \<not> list_ex (\<lambda>p. py_in p url) scraper_skip_tokens
                                   then insert url urls else urls)
                 else log_loop ls urls))
      else log_loop ls urls)"

text \<open>\<open>None\<close> for the logs: \<open>driver.get_log\<close> raises (logging not enabled).\<close>

definition extract_image_urls_from_network_logs :: "log_entry list option \<Rightarrow> string set" where
  "extract_image_urls_from_network_logs logs =
     (case logs of None \<Rightarrow> {} | Some ls \<Rightarrow> snd (log_loop ls {}))"

section \<open>Scrolling (instagram\_scraper\_automated.py)\<close>

text \<open>
  The browser session as the function sees it: the commands it sends are logged, and the
  page answers the k-th query of \<open>document.body.scrollHeight\<close> with \<open>page k\<close>.
\<close>

datatype browser_event =
    ReadHeight
  | ScrollToBottom
  | ScrollAboveBottom
  | Sleep nat

record browser =
  reads :: nat
  sent :: "browser_event list"

definition emit :: "browser_event \<Rightarrow> browser \<Rightarrow> browser" where
  "emit e b = b\<lparr>sent := sent b @ [e]\<rparr>"

definition read_height :: "(nat \<Rightarrow> nat) \<Rightarrow> browser \<Rightarrow> nat \<times> browser" where
  "read_height page b = (page (reads b), emit ReadHeight (b\<lparr>reads := Suc (reads b)\<rparr>))"

function scroll_loop ::
  "(nat \<Rightarrow> nat) \<Rightarrow> nat \<Rightarrow> nat \<Rightarrow> nat \<Rightarrow> nat \<Rightarrow> browser \<Rightarrow> nat \<times> browser" where
  "scroll_loop page max_scrolls scroll_delay last_height scrolls b =
     (if scrolls < max_scrolls then
        (case read_height page (emit (Sleep scroll_delay) (emit ScrollToBottom b)) of
           (new_height, b1) \<Rightarrow>
             if new_height = last_height then
               (case read_height page
                       (emit (Sleep scroll_delay) (emit ScrollToBottom
                         (emit (Sleep 1) (emit ScrollAboveBottom b1)))) of
                  (new_height2, b2) \<Rightarrow>
                    if new_height2 = last_height then (scrolls, b2)
                    else scroll_loop page max_scrolls scroll_delay new_height2 (Suc scrolls) b2)
             else scroll_loop page max_scrolls scroll_delay new_height (Suc scrolls) b1)
      else (scrolls, b))"
  by pat_completeness auto
termination
  by (relation "measure (\<lambda>(page, max_scrolls, scroll_delay, last_height, scrolls, b).
        max_scrolls - scrolls)") auto

declare scroll_loop.simps [simp del]

definition scroll_and_load_all :: "(nat \<Rightarrow> nat) \<Rightarrow> nat \<Rightarrow> nat \<Rightarrow> browser \<Rightarrow> nat \<times> browser" where
  "scroll_and_load_all page max_scrolls scroll_delay b =
     (case read_height page b of
        (last_height, b0) \<Rightarrow> scroll_loop page max_scrolls scroll_delay last_height 0 b0)"

section \<open>URL list file (extract\_instagram\_urls.py, download\_instagram\_images.py)\<close>

text \<open>\<open>save_urls_to_file\<close>: the text written to the file, \<open>url + '\n'\<close> for each URL.\<close>

definition save_urls_to_file :: "string list \<Rightarrow> string" where
  "save_urls_to_file urls = concat (map (\<lambda>url. url @ [CHR 0x0A]) urls)"

text \<open>Text-mode reading translates \<open>\r\n\<close> and \<open>\r\<close> to \<open>\n\<close>.\<close>

fun universal_newlines :: "string \<Rightarrow> string" where
  "universal_newlines [] = []"
| "universal_newlines [c] = (if c = CHR 0x0D then [CHR 0x0A] else [c])"
| "universal_newlines (c # d # cs) =
     (if c = CHR 0x0D then
        (if d = CHR 0x0A then CHR 0x0A # universal_newlines cs
         else CHR 0x0A # universal_newlines (d # cs))
      else c # universal_newlines (d # cs))"

text \<open>\<open>for line in f\<close>: each line with its terminator, the last one possibly without.\<close>

fun iter_lines :: "string \<Rightarrow> string \<Rightarrow> string list" where
  "iter_lines cur [] = (if cur = [] then [] else [rev cur])"
| "iter_lines cur (c # cs) =
     (if c = CHR 0x0A then rev (c # cur) # iter_lines [] cs else iter_lines (c # cur) cs)"

text \<open>The reading loop of \<open>download_images_from_file\<close>.\<close>

definition read_urls :: "string \<Rightarrow> string list" where
  "read_urls text =
     filter (\<lambda>url. url \<noteq> [] \<and> prefix ''http'' url)
       (map strip (iter_lines [] (universal_newlines text)))"

text \<open>A URL that survives the reading loop unchanged.\<close>

definition clean_url :: "string \<Rightarrow> bool" where
  "clean_url u =
     (prefix ''http'' u \<and> CHR 0x0A \<notin> set u \<and> CHR 0x0D \<notin> set u \<and> \<not> is_space (last u))"

section \<open>Filename derivation (download\_instagram\_images.py)\<close>

text \<open>
  The pattern \<open>/(\d+_\d+_\d+_n\.(jpg|jpeg|png|webp))\<close> matched at the head of a string;
  the result is \<open>group(1)\<close>. Each \<open>\d+\<close> is followed by a character that is not a digit,
  so it takes the whole run of digits.
\<close>

definition match_image_id_here :: "string \<Rightarrow> string option" where
  "match_image_id_here s =
     (case s of
        [] \<Rightarrow> None
      | c # r \<Rightarrow>
          if c \<noteq> CHR ''/'' then None
          else
            let d1 = takeWhile is_digit r; r1 = dropWhile is_digit r in
            if d1 = [] \<or> \<not> prefix ''_'' r1 then None
            else
              let d2 = takeWhile is_digit (drop 1 r1); r2 = dropWhile is_digit (drop 1 r1) in
              if d2 = [] \<or> \<not> prefix ''_'' r2 then None
              else
                let d3 = takeWhile is_digit (drop 1 r2); r3 = dropWhile is_digit (drop 1 r2) in
                if d3 = [] \<or> \<not> prefix ''_n.'' r3 then None
                else
                  (case find (\<lambda>e. prefix e (drop 3 r3)) [''jpg'', ''jpeg'', ''png'', ''webp''] of
                     None \<Rightarrow> None
                   | Some e \<Rightarrow> Some (d1 @ ''_'' @ d2 @ ''_'' @ d3 @ ''_n.'' @ e)))"

fun search_image_id :: "string \<Rightarrow> string option" where
  "search_image_id [] = None"
| "search_image_id (c # cs) =
     (case match_image_id_here (c # cs) of
        Some m \<Rightarrow> Some m
      | None \<Rightarrow> search_image_id cs)"

text \<open>\<open>os.path.basename\<close> (POSIX): what follows the last slash.\<close>

definition basename :: "string \<Rightarrow> string" where
  "basename path = rev (takeWhile (\<lambda>c. c \<noteq> CHR ''/'') (rev path))"

text \<open>Decimal notation of a natural number, and the format \<open>04d\<close> of an integer.\<close>

definition digit_char :: "nat \<Rightarrow> char" where
  "digit_char d = char_of (48 + d)"

function str_nat :: "nat \<Rightarrow> string" where
  "str_nat n = (if n < 10 then [digit_char n] else str_nat (n div 10) @ [digit_char (n mod 10)])"
  by pat_completeness auto
termination
  by (relation "measure id") auto

declare str_nat.simps [simp del]

definition zero_pad :: "nat \<Rightarrow> string \<Rightarrow> string" where
  "zero_pad w s = replicate (w - length s) CHR ''0'' @ s"

definition format_04d :: "int \<Rightarrow> string" where
  "format_04d i =
     (if i < 0 then CHR ''-'' # zero_pad 3 (str_nat (nat (- i))) else zero_pad 4 (str_nat (nat i)))"

datatype py_exn =
    ValueError
  | HTTPError nat
  | RetryError
  | ConnectionError
  | OSError
  | ChunkedEncodingError

text \<open>
  What one process and one remote host give the downloader and the code does not fix:
  \<^item> \<open>urlparse_path url\<close> is \<open>urlparse(url).path\<close>, \<open>None\<close> when \<open>urlparse\<close> raises
    \<open>ValueError\<close>;
  \<^item> \<open>str_hash\<close> is the built-in \<open>hash\<close> on strings, which CPython salts per process;
  \<^item> \<open>server url n\<close> is what the host answers to a request for \<open>url\<close> when \<open>n\<close> requests
    were sent before it;
  \<^item> \<open>can_open name\<close>: \<open>open(filepath, 'wb')\<close> succeeds.
\<close>

record http_response =
  status :: nat
  content_type :: "string option"
  body_ok :: bool

datatype attempt = TransportError | Responded http_response

record world =
  urlparse_path :: "string \<Rightarrow> string option"
  str_hash :: "string \<Rightarrow> int"
  server :: "string \<Rightarrow> nat \<Rightarrow> attempt"
  can_open :: "string \<Rightarrow> bool"

definition get_filename_from_url :: "world \<Rightarrow> string \<Rightarrow> int option \<Rightarrow> py_exn + string" where
  "get_filename_from_url w url index =
     (case urlparse_path w url of
        None \<Rightarrow> Inl ValueError
      | Some path \<Rightarrow>
          let filename =
            (case search_image_id path of
               Some m \<Rightarrow> m
             | None \<Rightarrow>
                 let filename = basename path in
                 if filename = [] \<or> CHR ''.'' \<notin> set filename
                 then ''image_'' @ str_nat (nat (str_hash w url mod 1000000)) @ ''.jpg''
                 else filename)
          in Inr (case index of
                    None \<Rightarrow> filename
                  | Some i \<Rightarrow> format_04d i @ ''_'' @ filename))"

text \<open>The name comes from the hash: no content identifier in the path, and a last path
  segment that is empty or has no dot.\<close>

definition uses_hash_fallback :: "world \<Rightarrow> string \<Rightarrow> bool" where
  "uses_hash_fallback w url =
     (case urlparse_path w url of
        None \<Rightarrow> False
      | Some path \<Rightarrow>
          search_image_id path = None \<and>
          (basename path = [] \<or> CHR ''.'' \<notin> set (basename path)))"

section \<open>Acquisition (download\_instagram\_images.py)\<close>

text \<open>
  The state a run changes: the names of the files in the output directory, and the log of
  what the run did on the network and with the clock, oldest first. The rate-limit delay
  is a number of milliseconds (a float number of seconds in the source).
\<close>

datatype net_event =
    Request string
  | Backoff nat
  | RateSleep int

record run_state =
  files :: "string set"
  trace :: "net_event list"

definition log_event :: "net_event \<Rightarrow> run_state \<Rightarrow> run_state" where
  "log_event e st = st\<lparr>trace := trace st @ [e]\<rparr>"

definition is_request :: "net_event \<Rightarrow> bool" where
  "is_request e = (case e of Request _ \<Rightarrow> True | _ \<Rightarrow> False)"

definition requests_sent :: "run_state \<Rightarrow> nat" where
  "requests_sent st = length (filter is_request (trace st))"

text \<open>The retry strategy of \<open>create_session\<close>.\<close>

definition retry_total :: nat where
  "retry_total = 3"

definition backoff_factor :: nat where
  "backoff_factor = 1"

definition status_forcelist :: "nat list" where
  "status_forcelist = [429, 500, 502, 503, 504]"

text \<open>
  Modelled from the spec: the retrying transport that \<open>create_session\<close> mounts (the
  \<open>Retry\<close> policy of urllib3 behind \<open>requests.HTTPAdapter\<close>), which is third-party code
  and not among the sources. An attempt that ends in a transport error or in a status of
  the force list is repeated while retries are left, after a sleep of
  \<open>backoff_factor * 2 ^ k\<close> seconds before retry number \<open>k + 1\<close>; when none is left the
  request fails. Any other response is returned at once.
\<close>

fun send_with_retries ::
  "world \<Rightarrow> string \<Rightarrow> nat \<Rightarrow> nat \<Rightarrow> run_state \<Rightarrow> (py_exn + http_response) \<times> run_state" where
  "send_with_retries w url left k st =
     (let a = server w url (requests_sent st); st1 = log_event (Request url) st in
      case a of
        TransportError \<Rightarrow>
          (case left of
             0 \<Rightarrow> (Inl ConnectionError, st1)
           | Suc l \<Rightarrow>
               send_with_retries w url l (Suc k) (log_event (Backoff (backoff_factor * 2 ^ k)) st1))
      | Responded r \<Rightarrow>
          if status r \<in> set status_forcelist then
            (case left of
               0 \<Rightarrow> (Inl RetryError, st1)
             | Suc l \<Rightarrow>
                 send_with_retries w url l (Suc k) (log_event (Backoff (backoff_factor * 2 ^ k)) st1))
          else (Inr r, st1))"

declare send_with_retries.simps [simp del]

definition session_get :: "world \<Rightarrow> string \<Rightarrow> run_state \<Rightarrow> (py_exn + http_response) \<times> run_state" where
  "session_get w url st = send_with_retries w url retry_total 0 st"

text \<open>\<open>response.raise_for_status()\<close> raises for the statuses 400 to 599.\<close>

definition raises_for_status :: "http_response \<Rightarrow> bool" where
  "raises_for_status r = (400 \<le> status r \<and> status r < 600)"

datatype failure = NotAnImage string | Raised py_exn

type_synonym outcome = "bool \<times> string option \<times> failure option"

text \<open>
  \<open>download_image\<close>. Every exception is caught and becomes the third component. The file
  exists from \<open>open\<close> on, also when the body breaks off. \<open>time.sleep\<close> raises
  \<open>ValueError\<close> on a negative delay.
\<close>

definition download_image ::
  "world \<Rightarrow> string \<Rightarrow> int option \<Rightarrow> int \<Rightarrow> run_state \<Rightarrow> outcome \<times> run_state" where
  "download_image w url index delay st =
     (case get_filename_from_url w url index of
        Inl e \<Rightarrow> ((False, None, Some (Raised e)), st)
      | Inr filename \<Rightarrow>
          if filename \<in> files st then ((True, Some filename, None), st)
          else
            (case session_get w url st of
               (Inl e, st1) \<Rightarrow> ((False, None, Some (Raised e)), st1)
             | (Inr response, st1) \<Rightarrow>
                 if raises_for_status response
                 then ((False, None, Some (Raised (HTTPError (status response)))), st1)
                 else
                   let ctype = or_empty (content_type response) in
                   if \<not> py_in ''image'' ctype then ((False, None, Some (NotAnImage ctype)), st1)
                   else if \<not> can_open w filename then ((False, None, Some (Raised OSError)), st1)
                   else
                     let st2 = st1\<lparr>files := insert filename (files st1)\<rparr> in
                     if \<not> body_ok response
                     then ((False, None, Some (Raised ChunkedEncodingError)), st2)
                     else if delay < 0 then ((False, None, Some (Raised ValueError)), st2)
                     else ((True, Some filename, None), log_event (RateSleep delay) st2)))"

record summary =
  successful :: nat
  failed :: nat
  total :: nat

text \<open>The loop \<open>for i, url in enumerate(urls, 1)\<close> with its two counters; the outcomes
  are the per-item lines it prints.\<close>

fun download_loop ::
  "world \<Rightarrow> int \<Rightarrow> int \<Rightarrow> string list \<Rightarrow> nat \<times> nat \<times> outcome list \<Rightarrow> run_state \<Rightarrow>
     (nat \<times> nat \<times> outcome list) \<times> run_state" where
  "download_loop w delay i [] acc st = (acc, st)"
| "download_loop w delay i (url # urls) (succ, fail, outs) st =
     (case download_image w url (Some i) delay st of
        (out, st1) \<Rightarrow>
          if fst out
          then download_loop w delay (i + 1) urls (succ + 1, fail, outs @ [out]) st1
          else download_loop w delay (i + 1) urls (succ, fail + 1, outs @ [out]) st1)"

text \<open>The outcomes of the loop without its counters.\<close>

fun download_all ::
  "world \<Rightarrow> int \<Rightarrow> int \<Rightarrow> string list \<Rightarrow> run_state \<Rightarrow> outcome list \<times> run_state" where
  "download_all w delay i [] st = ([], st)"
| "download_all w delay i (url # urls) st =
     (case download_image w url (Some i) delay st of
        (out, st1) \<Rightarrow>
          (case download_all w delay (i + 1) urls st1 of
             (outs, st2) \<Rightarrow> (out # outs, st2)))"

text \<open>\<open>download_images_from_file\<close> on the text of the URL file: \<open>None\<close> is the early
  return after "No URLs found in file!", which prints no summary.\<close>

definition download_images_from_file ::
  "world \<Rightarrow> string \<Rightarrow> int \<Rightarrow> run_state \<Rightarrow> (summary \<times> outcome list) option \<times> run_state" where
  "download_images_from_file w text delay st =
     (let urls = read_urls text in
      if urls = [] then (None, st)
      else
        (case download_loop w delay 1 urls (0, 0, []) st of
           ((succ, fail, outs), st1) \<Rightarrow>
             (Some (\<lparr>successful = succ, failed = fail, total = length urls\<rparr>, outs), st1)))"

text \<open>
  \<open>urlparse(url).path\<close> as CPython 3.11 computes it (\<open>urllib.parse.urlsplit\<close> and
  \<open>_splitparams\<close>), used as the \<open>urlparse_path\<close> of the example host below: leading
  control characters and spaces are stripped and tabs and line breaks removed; a valid
  scheme before the first colon is split off; after \<open>//\<close> the network location runs to
  the next slash, question mark or hash; then the fragment, the query and, for the
  schemes that have them, the parameters of the last segment are cut off. \<open>None\<close> is the
  \<open>ValueError\<close> for a network location with one square bracket but not the other; the
  further checks of a bracketed host and of a non-ASCII network location are not
  modelled.
\<close>

definition is_ascii_letter :: "char \<Rightarrow> bool" where
  "is_ascii_letter c =
     ((CHR ''a'' \<le> c \<and> c \<le> CHR ''z'') \<or> (CHR ''A'' \<le> c \<and> c \<le> CHR ''Z''))"

definition ascii_lower :: "char \<Rightarrow> char" where
  "ascii_lower c =
     (if CHR ''A'' \<le> c \<and> c \<le> CHR ''Z'' then char_of (of_char c + (32::nat)) else c)"

definition scheme_chars :: string where
  "scheme_chars = ''abcdefghijklmnopqrstuvwxyzABCDEFGHIJKLMNOPQRSTUVWXYZ0123456789+-.''"

definition uses_params :: "string list" where
  "uses_params = [[], ''ftp'', ''hdl'', ''prospero'', ''http'', ''imap'', ''https'', ''shttp'',
     ''rtsp'', ''rtsps'', ''rtspu'', ''sip'', ''sips'', ''mms'', ''sftp'', ''tel'']"

definition url_path :: "string \<Rightarrow> string option" where
  "url_path url0 =
     (let url1 = filter (\<lambda>c. c \<notin> set [CHR 0x09, CHR 0x0D, CHR 0x0A])
                   (dropWhile (\<lambda>c. (of_char c :: nat) \<le> 32) url0);
          i = length (takeWhile (\<lambda>c. c \<noteq> CHR '':'') url1);
          has_scheme = (CHR '':'' \<in> set url1 \<and> 0 < i \<and> is_ascii_letter (hd url1) \<and>
                        list_all (\<lambda>c. c \<in> set scheme_chars) (take i url1));
          scheme = (if has_scheme then map ascii_lower (take i url1) else []);
          url2 = (if has_scheme then drop (i + 1) url1 else url1);
          netloc = (if prefix ''//'' url2
                    then takeWhile (\<lambda>c. c \<notin> set ''/?#'') (drop 2 url2) else []);
          url3 = (if prefix ''//'' url2
                  then dropWhile (\<lambda>c. c \<notin> set ''/?#'') (drop 2 url2) else url2);
          url4 = takeWhile (\<lambda>c. c \<noteq> CHR ''#'') url3;
          url5 = takeWhile (\<lambda>c. c \<noteq> CHR ''?'') url4;
          seg = basename url5
      in if (CHR ''['' \<in> set netloc) \<noteq> (CHR '']'' \<in> set netloc) then None
         else if scheme \<in> set uses_params \<and> CHR '';'' \<in> set url5
         then Some (take (length url5 - length seg) url5 @ takeWhile (\<lambda>c. c \<noteq> CHR '';'') seg)
         else Some url5)"

text \<open>
  The responses and the host used in the concrete evaluations below. The host answers
  one URL with a JPEG image, one with an HTML page, one with status 503 and every other
  URL with status 404; \<open>h\<close> is the value the process's \<open>hash\<close> gives.
\<close>

definition image_response :: http_response where
  "image_response = \<lparr>status = 200, content_type = Some ''image/jpeg'', body_ok = True\<rparr>"

definition html_response :: http_response where
  "html_response = \<lparr>status = 200, content_type = Some ''text/html'', body_ok = True\<rparr>"

definition error_response :: "nat \<Rightarrow> http_response" where
  "error_response code = \<lparr>status = code, content_type = None, body_ok = True\<rparr>"

definition example_world :: "int \<Rightarrow> world" where
  "example_world h =
     \<lparr>urlparse_path = url_path,
      str_hash = (\<lambda>url. h),
      server = (\<lambda>url n.
        if url = ''https://scontent.cdninstagram.com/v/t51.82787-15/1_2_3_n.jpg?stp=dst-jpg_e35''
        then Responded image_response
        else if url = ''https://www.instagram.com/p/CxYz123/'' then Responded html_response
        else if url = ''https://scontent.cdninstagram.com/v/t51.82787-15/4_5_6_n.jpg''
        then Responded (error_response 503)
        else Responded (error_response 404)),
      can_open = (\<lambda>name. True)\<rparr>"

section \<open>Properties of the classifier\<close>

lemma py_in_sublist: "py_in sub s \<longleftrightarrow> sublist sub s"
  by (induction s) (auto simp: sublist_Cons_right)

lemma py_in_mono: "sublist a b \<Longrightarrow> py_in b s \<Longrightarrow> py_in a s"
  unfolding py_in_sublist by (rule sublist_order.order_trans)

lemma s150_in_underscore_s150: "sublist ''s150x150'' ''_s150x150''"
  by (simp add: sublist_Cons_right)

lemma s100_in_underscore_s100: "sublist ''s100x100'' ''_s100x100''"
  by (simp add: sublist_Cons_right)

lemma small_tokens_iff:
  "list_ex (\<lambda>p. py_in p url) small_tokens \<longleftrightarrow> py_in ''s150x150'' url \<or> py_in ''s100x100'' url"
  using py_in_mono [OF s150_in_underscore_s150, of url]
    py_in_mono [OF s100_in_underscore_s100, of url]
  by (auto simp: small_tokens_def)

text \<open>
  C1 (amended). A URL that contains the thumbnail token \<open>s150x150\<close> or \<open>s100x100\<close> (with
  or without the leading underscore) is rejected. A URL that contains one of the three
  post-image path tokens is accepted when it contains neither the profile-picture token
  nor one of these thumbnail tokens, whatever other size token it carries. The reject
  rules stand before the path rule, so a path token does not save a URL that also has
  a thumbnail token.
\<close>

theorem classifier_thumbnail_then_post_path:
  "(py_in ''s150x150'' url \<or> py_in ''s100x100'' url \<longrightarrow> \<not> is_full_size_image url) \<and>
   ((py_in ''/t51.82787-15/'' url \<or> py_in ''/t51.75761-15/'' url \<or> py_in ''/t51.71878-15/'' url) \<and>
    \<not> py_in ''/t51.2885-19/'' url \<and> \<not> py_in ''s150x150'' url \<and> \<not> py_in ''s100x100'' url
      \<longrightarrow> is_full_size_image url)"
proof (intro conjI impI)
  assume "py_in ''s150x150'' url \<or> py_in ''s100x100'' url"
  then have "list_ex (\<lambda>p. py_in p url) small_tokens"
    by (simp add: small_tokens_iff)
  then show "\<not> is_full_size_image url"
    by (simp add: is_full_size_image_def)
next
  assume a: "(py_in ''/t51.82787-15/'' url \<or> py_in ''/t51.75761-15/'' url \<or>
      py_in ''/t51.71878-15/'' url) \<and>
    \<not> py_in ''/t51.2885-19/'' url \<and> \<not> py_in ''s150x150'' url \<and> \<not> py_in ''s100x100'' url"
  then have "\<not> list_ex (\<lambda>p. py_in p url) small_tokens"
    by (simp add: small_tokens_iff)
  moreover from a have "list_ex (\<lambda>p. py_in p url) post_tokens"
    by (auto simp: post_tokens_def)
  moreover from a have "\<not> py_in profile_token url"
    by (simp add: profile_token_def)
  ultimately show "is_full_size_image url"
    by (simp add: is_full_size_image_def)
qed

theorem classifier_thumbnail_then_post_path_witness:
  "py_in ''s150x150'' ''https://scontent.cdninstagram.com/v/t51.2885-15/e35/s150x150/1_2_3_n.jpg'' \<and>
   \<not> is_full_size_image ''https://scontent.cdninstagram.com/v/t51.2885-15/e35/s150x150/1_2_3_n.jpg'' \<and>
   py_in ''/t51.82787-15/'' ''https://scontent.cdninstagram.com/v/t51.82787-15/1_2_3_n.jpg?stp=dst-jpg_p320x320'' \<and>
   search_size ''https://scontent.cdninstagram.com/v/t51.82787-15/1_2_3_n.jpg?stp=dst-jpg_p320x320'' = Some 320 \<and>
   is_full_size_image ''https://scontent.cdninstagram.com/v/t51.82787-15/1_2_3_n.jpg?stp=dst-jpg_p320x320''"
proof -
  let ?u1 = "''https://scontent.cdninstagram.com/v/t51.2885-15/e35/s150x150/1_2_3_n.jpg''"
  let ?u2 = "''https://scontent.cdninstagram.com/v/t51.82787-15/1_2_3_n.jpg?stp=dst-jpg_p320x320''"
  have h1: "py_in ''s150x150'' ?u1"
    by code_simp
  have h2: "py_in ''/t51.82787-15/'' ?u2"
    by code_simp
  have h3: "\<not> py_in ''/t51.2885-19/'' ?u2" "\<not> py_in ''s150x150'' ?u2" "\<not> py_in ''s100x100'' ?u2"
    by code_simp+
  have h4: "search_size ?u2 = Some 320"
    by code_simp
  from classifier_thumbnail_then_post_path [of ?u1] h1 have "\<not> is_full_size_image ?u1"
    by blast
  moreover from classifier_thumbnail_then_post_path [of ?u2] h2 h3 have "is_full_size_image ?u2"
    by blast
  ultimately show ?thesis
    using h1 h2 h4 by blast
qed

text \<open>
  C1 as stated fails: this URL has an accepted post-image path token and is rejected,
  because it also carries the thumbnail token \<open>s150x150\<close>.
\<close>

theorem post_path_with_thumbnail_token_rejected:
  "list_ex (\<lambda>p. py_in p ''https://scontent.cdninstagram.com/v/t51.82787-15/1_2_3_n.jpg?stp=dst-jpg_s150x150'')
     post_tokens \<and>
   \<not> is_full_size_image
     ''https://scontent.cdninstagram.com/v/t51.82787-15/1_2_3_n.jpg?stp=dst-jpg_s150x150''"
  by code_simp

text \<open>
  C10 (amended). A URL of the CDN family that contains a size token below 640 and none
  of the tokens \<open>_s150\<close>, \<open>_s100\<close>, \<open>s150x150\<close>, \<open>s100x100\<close> is accepted, provided it does
  not contain the profile-picture token \<open>/t51.2885-19/\<close>, which the first rule rejects.
\<close>

theorem mid_size_accepted_by_default_rule:
  assumes "cdn_family url"
    and "list_ex (\<lambda>n. n < 640) (size_tokens url)"
    and "\<not> list_ex (\<lambda>p. py_in p url) thumb_tokens"
    and "\<not> py_in profile_token url"
  shows "is_full_size_image url"
proof -
  from assms(3) have "\<not> py_in ''s150x150'' url" "\<not> py_in ''s100x100'' url"
    by (simp_all add: thumb_tokens_def)
  then have "\<not> list_ex (\<lambda>p. py_in p url) small_tokens"
    by (simp add: small_tokens_iff)
  with assms(1,3,4) show ?thesis
    by (simp add: is_full_size_image_def)
qed

theorem mid_size_accepted_by_default_rule_witness:
  "cdn_family ''https://scontent.cdninstagram.com/v/t51.29350-15/1_2_3_n.jpg?stp=dst-jpg_p320x320'' \<and>
   size_tokens ''https://scontent.cdninstagram.com/v/t51.29350-15/1_2_3_n.jpg?stp=dst-jpg_p320x320'' = [320] \<and>
   \<not> list_ex (\<lambda>p. py_in p ''https://scontent.cdninstagram.com/v/t51.29350-15/1_2_3_n.jpg?stp=dst-jpg_p320x320'')
       post_tokens \<and>
   is_full_size_image ''https://scontent.cdninstagram.com/v/t51.29350-15/1_2_3_n.jpg?stp=dst-jpg_p320x320''"
proof -
  let ?u = "''https://scontent.cdninstagram.com/v/t51.29350-15/1_2_3_n.jpg?stp=dst-jpg_p320x320''"
  have h1: "cdn_family ?u"
    by code_simp
  have h2: "size_tokens ?u = [320]"
    by code_simp
  have h3: "\<not> list_ex (\<lambda>p. py_in p ?u) thumb_tokens"
    by code_simp
  have h4: "\<not> py_in profile_token ?u"
    by code_simp
  have h5: "\<not> list_ex (\<lambda>p. py_in p ?u) post_tokens"
    by code_simp
  have "list_ex (\<lambda>n. n < 640) (size_tokens ?u)"
    unfolding h2 by simp
  from mid_size_accepted_by_default_rule [OF h1 this h3 h4] h1 h2 h5 show ?thesis
    by blast
qed

text \<open>
  C10 as stated fails: a profile picture of the CDN family with the size token
  \<open>s320x320\<close> and no thumbnail token is rejected by the first rule.
\<close>

theorem profile_picture_with_mid_size_rejected:
  "cdn_family ''https://scontent.cdninstagram.com/v/t51.2885-19/1_2_3_n.jpg?stp=dst-jpg_s320x320'' \<and>
   list_ex (\<lambda>n. n < 640)
     (size_tokens ''https://scontent.cdninstagram.com/v/t51.2885-19/1_2_3_n.jpg?stp=dst-jpg_s320x320'') \<and>
   \<not> list_ex (\<lambda>p. py_in p ''https://scontent.cdninstagram.com/v/t51.2885-19/1_2_3_n.jpg?stp=dst-jpg_s320x320'')
       thumb_tokens \<and>
   \<not> is_full_size_image
     ''https://scontent.cdninstagram.com/v/t51.2885-19/1_2_3_n.jpg?stp=dst-jpg_s320x320''"
  by code_simp

section \<open>Properties of the discovery channels\<close>

lemma srcset_loop_admits:
  "\<forall>u\<in>urls. inline_admit u \<Longrightarrow> v \<in> snd (srcset_loop es urls) \<Longrightarrow> inline_admit v"
proof (induction es arbitrary: urls)
  case Nil
  then show ?case by simp
next
  case (Cons e es)
  show ?case
  proof (cases "split_ws (strip e)")
    case Nil
    with Cons.prems show ?thesis by simp
  next
    case c: (Cons src_url rest)
    show ?thesis
    proof (cases "inline_admit src_url")
      case True
      with Cons.prems(1) have "\<forall>u\<in>insert src_url urls. inline_admit u"
        by simp
      moreover from Cons.prems(2) c True have "v \<in> snd (srcset_loop es (insert src_url urls))"
        by simp
      ultimately show ?thesis
        by (rule Cons.IH)
    next
      case False
      with Cons.prems(2) c have "v \<in> snd (srcset_loop es urls)"
        by simp
      with Cons.prems(1) show ?thesis
        by (rule Cons.IH)
    qed
  qed
qed

lemma dom_loop_admits:
  "\<forall>u\<in>urls. inline_admit u \<Longrightarrow> v \<in> snd (dom_loop images urls) \<Longrightarrow> inline_admit v"
proof (induction images arbitrary: urls)
  case Nil
  then show ?case by simp
next
  case (Cons i images)
  define urls1 where "urls1 =
    (case src i of None \<Rightarrow> urls
     | Some s \<Rightarrow> if s \<noteq> [] \<and> inline_admit s then insert s urls else urls)"
  have u1: "\<forall>u\<in>urls1. inline_admit u"
    using Cons.prems(1) by (auto simp: urls1_def split: option.splits)
  show ?case
  proof (cases "srcset i = None \<or> srcset i = Some []")
    case True
    with Cons.prems(2) have "v \<in> snd (dom_loop images urls1)"
      by (auto simp: urls1_def [symmetric] Let_def)
    with u1 show ?thesis
      by (rule Cons.IH)
  next
    case False
    then obtain ss where ss: "srcset i = Some ss" "ss \<noteq> []"
      by auto
    obtain ok urls2 where r: "srcset_loop (split_on CHR '','' ss) urls1 = (ok, urls2)"
      by (cases "srcset_loop (split_on CHR '','' ss) urls1")
    have u2: "\<forall>u\<in>urls2. inline_admit u"
      using srcset_loop_admits [OF u1, of _ "split_on CHR '','' ss"] r by simp
    show ?thesis
    proof (cases ok)
      case True
      with Cons.prems(2) ss r have "v \<in> snd (dom_loop images urls2)"
        by (simp add: urls1_def [symmetric] Let_def)
      with u2 show ?thesis
        by (rule Cons.IH)
    next
      case False
      with Cons.prems(2) ss r have "v \<in> urls2"
        by (simp add: urls1_def [symmetric] Let_def)
      with u2 show ?thesis
        by simp
    qed
  qed
qed

lemma log_loop_admits:
  "\<forall>u\<in>urls. inline_admit u \<Longrightarrow> v \<in> snd (log_loop ls urls) \<Longrightarrow> inline_admit v"
proof (induction ls arbitrary: urls)
  case Nil
  then show ?case by simp
next
  case (Cons l ls)
  show ?case
  proof (cases l)
    case BadEntry
    with Cons.prems show ?thesis by simp
  next
    case (LogEvent m r)
    show ?thesis
    proof (cases "m = ''Network.responseReceived'' \<and> r \<noteq> None")
      case False
      with Cons.prems LogEvent have "v \<in> urls \<or> v \<in> snd (log_loop ls urls)"
        by (auto split: if_splits)
      with Cons.prems(1) Cons.IH [OF Cons.prems(1)] show ?thesis
        by blast
    next
      case True
      then obtain response where resp: "r = Some response"
        by auto
      define url where "url = or_empty (resp_url response)"
      define mime_type where "mime_type = or_empty (resp_mime response)"
      show ?thesis
      proof (cases "py_in ''image'' mime_type \<and> cdn_family url \<and>
          \<not> list_ex (\<lambda>p. py_in p url) scraper_skip_tokens")
        case t: True
        then have "inline_admit url"
          by (simp add: inline_admit_def)
        with Cons.prems(1) have "\<forall>u\<in>insert url urls. inline_admit u"
          by simp
        moreover from Cons.prems(2) LogEvent True resp t
        have "v \<in> snd (log_loop ls (insert url urls))"
          by (simp add: url_def mime_type_def Let_def)
        ultimately show ?thesis
          by (rule Cons.IH)
      next
        case f: False
        with Cons.prems(2) LogEvent True resp have "v \<in> snd (log_loop ls urls)"
          by (auto simp: url_def mime_type_def Let_def split: if_splits)
        with Cons.prems(1) show ?thesis
          by (rule Cons.IH)
      qed
    qed
  qed
qed

lemma inline_admit_of_classifier:
  assumes "cdn_family u" and "is_full_size_image u"
  shows "inline_admit u"
proof -
  from assms(2) have "\<not> py_in profile_token u" "\<not> list_ex (\<lambda>p. py_in p u) small_tokens"
    by (auto simp: is_full_size_image_def split: if_splits)
  with assms(1) show ?thesis
    by (simp add: inline_admit_def scraper_skip_tokens_def small_tokens_def profile_token_def)
qed

lemma classifier_of_inline_admit:
  assumes "inline_admit u" and "\<not> list_ex (\<lambda>p. py_in p u) thumb_tokens"
  shows "is_full_size_image u"
proof -
  from assms(2) have "\<not> py_in ''s150x150'' u" "\<not> py_in ''s100x100'' u"
    by (simp_all add: thumb_tokens_def)
  then have "\<not> list_ex (\<lambda>p. py_in p u) small_tokens"
    by (simp add: small_tokens_iff)
  moreover from assms(1) have "\<not> py_in profile_token u" "cdn_family u"
    by (simp_all add: inline_admit_def scraper_skip_tokens_def profile_token_def)
  ultimately show ?thesis
    using assms(2) by (simp add: is_full_size_image_def)
qed

text \<open>
  C2 (amended). Every URL that the DOM channel (\<open>src\<close> and \<open>srcset\<close> entries) or the
  network-log channel puts into the store passes the scraper's own inline test
  \<open>inline_admit\<close>: it mentions the CDN family and contains none of \<open>_s150x150\<close>,
  \<open>_s100x100\<close>, \<open>/t51.2885-19/\<close>. That test is not the classifier. The two agree on the
  URLs of the CDN family that contain none of \<open>_s150\<close>, \<open>_s100\<close>, \<open>s150x150\<close>,
  \<open>s100x100\<close>; and on the CDN family whatever the classifier accepts the inline test
  admits. So a stored URL passes the classifier when it is free of these four tokens.
\<close>

theorem channels_admit_by_inline_filter:
  "(\<forall>u\<in>extract_image_urls_from_dom images \<union> extract_image_urls_from_network_logs logs.
      inline_admit u \<and>
      (\<not> list_ex (\<lambda>p. py_in p u) thumb_tokens \<longrightarrow> is_full_size_image u)) \<and>
   (\<forall>u. cdn_family u \<and> \<not> list_ex (\<lambda>p. py_in p u) thumb_tokens \<longrightarrow>
      inline_admit u = is_full_size_image u) \<and>
   (\<forall>u. cdn_family u \<and> is_full_size_image u \<longrightarrow> inline_admit u)"
proof (intro conjI ballI allI impI)
  fix u
  assume "u \<in> extract_image_urls_from_dom images \<union> extract_image_urls_from_network_logs logs"
  then show a: "inline_admit u"
  proof
    assume "u \<in> extract_image_urls_from_dom images"
    then show ?thesis
      using dom_loop_admits [of "{}" u images] by (simp add: extract_image_urls_from_dom_def)
  next
    assume "u \<in> extract_image_urls_from_network_logs logs"
    then show ?thesis
      using log_loop_admits [of "{}" u]
      by (cases logs) (simp_all add: extract_image_urls_from_network_logs_def)
  qed
  assume "\<not> list_ex (\<lambda>p. py_in p u) thumb_tokens"
  with a show "is_full_size_image u"
    by (rule classifier_of_inline_admit)
next
  fix u
  assume "cdn_family u \<and> \<not> list_ex (\<lambda>p. py_in p u) thumb_tokens"
  then show "inline_admit u = is_full_size_image u"
    using classifier_of_inline_admit [of u] inline_admit_of_classifier [of u] by blast
next
  fix u
  assume "cdn_family u \<and> is_full_size_image u"
  then show "inline_admit u"
    using inline_admit_of_classifier [of u] by blast
qed

theorem channels_admit_by_inline_filter_witness:
  "''//scontent.cdninstagram.com/v/t51.82787-15/4_5_6_n.jpg'' \<in>
     extract_image_urls_from_dom
       [\<lparr>src = Some ''https://scontent.cdninstagram.com/v/t51.82787-15/1_2_3_n.jpg'',
         srcset = Some ''https://scontent.cdninstagram.com/v/t51.82787-15/1_2_3_n.jpg 640w, //scontent.cdninstagram.com/v/t51.82787-15/4_5_6_n.jpg 1080w''\<rparr>] \<and>
   cdn_family ''//scontent.cdninstagram.com/v/t51.82787-15/4_5_6_n.jpg'' \<and>
   \<not> list_ex (\<lambda>p. py_in p ''//scontent.cdninstagram.com/v/t51.82787-15/4_5_6_n.jpg'') thumb_tokens \<and>
   inline_admit ''//scontent.cdninstagram.com/v/t51.82787-15/4_5_6_n.jpg'' \<and>
   is_full_size_image ''//scontent.cdninstagram.com/v/t51.82787-15/4_5_6_n.jpg''"
proof -
  let ?u = "''//scontent.cdninstagram.com/v/t51.82787-15/4_5_6_n.jpg''"
  let ?images = "[\<lparr>src = Some ''https://scontent.cdninstagram.com/v/t51.82787-15/1_2_3_n.jpg'',
    srcset = Some ''https://scontent.cdninstagram.com/v/t51.82787-15/1_2_3_n.jpg 640w, //scontent.cdninstagram.com/v/t51.82787-15/4_5_6_n.jpg 1080w''\<rparr>]"
  have h1: "?u \<in> extract_image_urls_from_dom ?images"
    by code_simp
  have h2: "cdn_family ?u"
    by code_simp
  have h3: "\<not> list_ex (\<lambda>p. py_in p ?u) thumb_tokens"
    by code_simp
  from h1 have "?u \<in> extract_image_urls_from_dom ?images \<union> extract_image_urls_from_network_logs None"
    by simp
  with channels_admit_by_inline_filter [of ?images None] h3
  have "inline_admit ?u \<and> is_full_size_image ?u"
    by blast
  with h1 h2 h3 show ?thesis
    by blast
qed

text \<open>
  C2 as stated fails: both channels store this URL, which has the older path segment
  \<open>/s150x150/\<close> (no underscore before the token), and the classifier rejects it.
\<close>

theorem channels_store_url_the_classifier_rejects:
  "''https://scontent.cdninstagram.com/v/t51.2885-15/e35/s150x150/1_2_3_n.jpg'' \<in>
     extract_image_urls_from_dom
       [\<lparr>src = Some ''https://scontent.cdninstagram.com/v/t51.2885-15/e35/s150x150/1_2_3_n.jpg'',
         srcset = None\<rparr>] \<and>
   ''https://scontent.cdninstagram.com/v/t51.2885-15/e35/s150x150/1_2_3_n.jpg'' \<in>
     extract_image_urls_from_network_logs
       (Some [LogEvent ''Network.responseReceived''
          (Some \<lparr>resp_url = Some ''https://scontent.cdninstagram.com/v/t51.2885-15/e35/s150x150/1_2_3_n.jpg'',
             resp_mime = Some ''image/jpeg''\<rparr>)]) \<and>
   inline_admit ''https://scontent.cdninstagram.com/v/t51.2885-15/e35/s150x150/1_2_3_n.jpg'' \<and>
   \<not> is_full_size_image ''https://scontent.cdninstagram.com/v/t51.2885-15/e35/s150x150/1_2_3_n.jpg''"
  by code_simp

section \<open>Properties of scrolling\<close>

lemma scroll_stable_page:
  assumes "0 < max_scrolls" and "page 1 = page 0" and "page 2 = page 0"
  shows "scroll_and_load_all page max_scrolls d \<lparr>reads = 0, sent = []\<rparr> =
    (0, \<lparr>reads = 3,
         sent = [ReadHeight, ScrollToBottom, Sleep d, ReadHeight,
                 ScrollAboveBottom, Sleep 1, ScrollToBottom, Sleep d, ReadHeight]\<rparr>)"
proof -
  have "read_height page \<lparr>reads = 0, sent = []\<rparr> = (page 0, \<lparr>reads = 1, sent = [ReadHeight]\<rparr>)"
    by (simp add: read_height_def emit_def)
  moreover have "scroll_loop page max_scrolls d (page 0) 0 \<lparr>reads = 1, sent = [ReadHeight]\<rparr> =
    (0, \<lparr>reads = 3,
         sent = [ReadHeight, ScrollToBottom, Sleep d, ReadHeight,
                 ScrollAboveBottom, Sleep 1, ScrollToBottom, Sleep d, ReadHeight]\<rparr>)"
    using assms
    by (subst scroll_loop.simps) (simp add: read_height_def emit_def numeral_2_eq_2)
  ultimately show ?thesis
    by (simp add: scroll_and_load_all_def)
qed

text \<open>
  C7. A scroll command tells the browser to scroll to the bottom of the document; the
  nudge is one retry, a short scroll up followed by such a command. On a page whose
  height does not grow (the initial query, the query after the first scroll and the
  re-check after the nudge all give the same height, as for the heights 1000, 1000) and
  with \<open>max_scrolls\<close> at least 1, \<open>scroll_and_load_all\<close> stops after the single nudge:
  it returns 0 counted scrolls, has nudged exactly once and has sent at most 2 scroll
  commands, namely the first scroll and the one that ends the nudge.
\<close>

theorem stable_page_stops_after_one_nudge:
  assumes "0 < max_scrolls" and "page 1 = page 0" and "page 2 = page 0"
  shows "fst (scroll_and_load_all page max_scrolls d \<lparr>reads = 0, sent = []\<rparr>) = 0 \<and>
    sent (snd (scroll_and_load_all page max_scrolls d \<lparr>reads = 0, sent = []\<rparr>)) =
      [ReadHeight, ScrollToBottom, Sleep d, ReadHeight,
       ScrollAboveBottom, Sleep 1, ScrollToBottom, Sleep d, ReadHeight] \<and>
    count_list (sent (snd (scroll_and_load_all page max_scrolls d \<lparr>reads = 0, sent = []\<rparr>)))
      ScrollToBottom \<le> 2 \<and>
    count_list (sent (snd (scroll_and_load_all page max_scrolls d \<lparr>reads = 0, sent = []\<rparr>)))
      ScrollToBottom = 2 \<and>
    count_list (sent (snd (scroll_and_load_all page max_scrolls d \<lparr>reads = 0, sent = []\<rparr>)))
      ScrollAboveBottom = 1"
  unfolding scroll_stable_page [OF assms] by simp

theorem stable_page_stops_after_one_nudge_witness:
  "fst (scroll_and_load_all (\<lambda>k. 1000) 50 2 \<lparr>reads = 0, sent = []\<rparr>) = 0 \<and>
   sent (snd (scroll_and_load_all (\<lambda>k. 1000) 50 2 \<lparr>reads = 0, sent = []\<rparr>)) =
      [ReadHeight, ScrollToBottom, Sleep 2, ReadHeight,
       ScrollAboveBottom, Sleep 1, ScrollToBottom, Sleep 2, ReadHeight] \<and>
   count_list (sent (snd (scroll_and_load_all (\<lambda>k. 1000) 50 2 \<lparr>reads = 0, sent = []\<rparr>)))
      ScrollToBottom \<le> 2 \<and>
   count_list (sent (snd (scroll_and_load_all (\<lambda>k. 1000) 50 2 \<lparr>reads = 0, sent = []\<rparr>)))
      ScrollToBottom = 2"
  using stable_page_stops_after_one_nudge [of 50 "\<lambda>k. 1000" 2] by simp

section \<open>Properties of the URL list file\<close>

lemma universal_newlines_no_cr: "CHR 0x0D \<notin> set s \<Longrightarrow> universal_newlines s = s"
  by (induction s rule: universal_newlines.induct) auto

lemma iter_lines_line:
  "CHR 0x0A \<notin> set u \<Longrightarrow>
     iter_lines cur (u @ CHR 0x0A # rest) = (rev cur @ u @ [CHR 0x0A]) # iter_lines [] rest"
  by (induction u arbitrary: cur) auto

lemma save_urls_to_file_Cons:
  "save_urls_to_file (u # urls) = u @ CHR 0x0A # save_urls_to_file urls"
  by (simp add: save_urls_to_file_def)

lemma iter_lines_saved:
  "\<forall>u\<in>set urls. CHR 0x0A \<notin> set u \<Longrightarrow>
     iter_lines [] (save_urls_to_file urls) = map (\<lambda>u. u @ [CHR 0x0A]) urls"
proof (induction urls)
  case Nil
  then show ?case by (simp add: save_urls_to_file_def)
next
  case (Cons u urls)
  then have "iter_lines [] (save_urls_to_file urls) = map (\<lambda>u. u @ [CHR 0x0A]) urls"
    by simp
  moreover from Cons.prems have "CHR 0x0A \<notin> set u"
    by simp
  ultimately show ?case
    by (simp add: iter_lines_line save_urls_to_file_Cons)
qed

lemma http_not_space: "prefix ''http'' u \<Longrightarrow> u \<noteq> [] \<and> \<not> is_space (hd u)"
  by (cases u) (auto simp: is_space_def)

lemma strip_clean_line:
  assumes "clean_url u"
  shows "strip (u @ [CHR 0x0A]) = u"
proof -
  from assms have ne: "u \<noteq> []" and h: "\<not> is_space (hd u)" and l: "\<not> is_space (last u)"
    using http_not_space [of u] by (simp_all add: clean_url_def)
  from ne h have "dropWhile is_space (u @ [CHR 0x0A]) = u @ [CHR 0x0A]"
    by (cases u) simp_all
  moreover have "is_space (CHR 0x0A)"
    by (simp add: is_space_def)
  moreover from ne l have "dropWhile is_space (rev u) = rev u"
    by (cases u rule: rev_cases) simp_all
  ultimately show ?thesis
    by (simp add: strip_def)
qed

lemma saved_no_cr:
  "\<forall>u\<in>set urls. CHR 0x0D \<notin> set u \<Longrightarrow> CHR 0x0D \<notin> set (save_urls_to_file urls)"
  by (auto simp: save_urls_to_file_def)

lemma read_saved_urls:
  assumes "\<forall>u\<in>set urls. clean_url u"
  shows "read_urls (save_urls_to_file urls) = urls"
proof -
  from assms have "universal_newlines (save_urls_to_file urls) = save_urls_to_file urls"
    by (intro universal_newlines_no_cr saved_no_cr) (simp add: clean_url_def)
  moreover from assms have "iter_lines [] (save_urls_to_file urls) = map (\<lambda>u. u @ [CHR 0x0A]) urls"
    by (intro iter_lines_saved) (simp add: clean_url_def)
  moreover from assms have "map strip (map (\<lambda>u. u @ [CHR 0x0A]) urls) = urls"
    by (induction urls) (simp_all add: strip_clean_line)
  moreover from assms have "filter (\<lambda>url. url \<noteq> [] \<and> prefix ''http'' url) urls = urls"
    using http_not_space by (intro filter_True) (auto simp: clean_url_def)
  ultimately show ?thesis
    by (simp add: read_urls_def)
qed

text \<open>
  C9 (amended). For every finite set of URLs each of which starts with \<open>http\<close>, contains
  no line feed or carriage return and does not end in a whitespace character, writing
  the sorted list with \<open>save_urls_to_file\<close> and reading the text back with the loop of
  \<open>download_images_from_file\<close> gives the same sorted, duplicate-free list. The reading
  loop strips each line and drops the lines that do not start with \<open>http\<close>, so other
  accepted URLs do not come back.
\<close>

theorem persist_then_load_round_trip:
  assumes "finite S" and "\<forall>u\<in>S. clean_url u"
  shows "read_urls (save_urls_to_file (sorted_list_of_set S)) = sorted_list_of_set S \<and>
         sorted (read_urls (save_urls_to_file (sorted_list_of_set S))) \<and>
         distinct (read_urls (save_urls_to_file (sorted_list_of_set S))) \<and>
         set (read_urls (save_urls_to_file (sorted_list_of_set S))) = S \<and>
         (S \<noteq> {} \<longrightarrow> last (save_urls_to_file (sorted_list_of_set S)) = CHR 0x0A)"
proof -
  from assms have "\<forall>u\<in>set (sorted_list_of_set S). clean_url u"
    by simp
  then have "read_urls (save_urls_to_file (sorted_list_of_set S)) = sorted_list_of_set S"
    by (rule read_saved_urls)
  moreover have "last (save_urls_to_file urls) = CHR 0x0A" if "urls \<noteq> []" for urls
    using that by (cases urls rule: rev_cases) (simp_all add: save_urls_to_file_def)
  ultimately show ?thesis
    using assms(1) by simp
qed

theorem persist_then_load_round_trip_witness:
  "is_full_size_image ''https://b.fbcdn.net/2.jpg'' \<and>
   is_full_size_image ''https://a.fbcdn.net/1.jpg'' \<and>
   save_urls_to_file (sorted_list_of_set {''https://b.fbcdn.net/2.jpg'', ''https://a.fbcdn.net/1.jpg''}) =
     ''https://a.fbcdn.net/1.jpg'' @ [CHR 0x0A] @ ''https://b.fbcdn.net/2.jpg'' @ [CHR 0x0A] \<and>
   read_urls (save_urls_to_file
       (sorted_list_of_set {''https://b.fbcdn.net/2.jpg'', ''https://a.fbcdn.net/1.jpg''})) =
     [''https://a.fbcdn.net/1.jpg'', ''https://b.fbcdn.net/2.jpg'']"
proof -
  let ?S = "{''https://b.fbcdn.net/2.jpg'', ''https://a.fbcdn.net/1.jpg''}"
  have s: "sorted_list_of_set ?S = [''https://a.fbcdn.net/1.jpg'', ''https://b.fbcdn.net/2.jpg'']"
    by code_simp
  have c: "\<forall>u\<in>?S. clean_url u"
    by code_simp
  have a: "is_full_size_image ''https://b.fbcdn.net/2.jpg''" "is_full_size_image ''https://a.fbcdn.net/1.jpg''"
    by code_simp+
  have f: "save_urls_to_file [''https://a.fbcdn.net/1.jpg'', ''https://b.fbcdn.net/2.jpg''] =
     ''https://a.fbcdn.net/1.jpg'' @ [CHR 0x0A] @ ''https://b.fbcdn.net/2.jpg'' @ [CHR 0x0A]"
    by (simp add: save_urls_to_file_def)
  from persist_then_load_round_trip [of ?S, OF _ c]
  have "read_urls (save_urls_to_file (sorted_list_of_set ?S)) = sorted_list_of_set ?S"
    by simp
  with a f show ?thesis
    unfolding s by simp
qed

text \<open>
  C9 as stated fails: the classifier accepts this protocol-relative URL (the DOM channel
  stores it from a \<open>srcset\<close> entry), and after writing and reading the list is empty.
\<close>

theorem accepted_url_lost_in_round_trip:
  "is_full_size_image ''//scontent.cdninstagram.com/v/t51.82787-15/4_5_6_n.jpg'' \<and>
   save_urls_to_file [''//scontent.cdninstagram.com/v/t51.82787-15/4_5_6_n.jpg''] =
     ''//scontent.cdninstagram.com/v/t51.82787-15/4_5_6_n.jpg'' @ [CHR 0x0A] \<and>
   read_urls (save_urls_to_file
     (sorted_list_of_set {''//scontent.cdninstagram.com/v/t51.82787-15/4_5_6_n.jpg''})) = []"
proof -
  have "sorted_list_of_set {''//scontent.cdninstagram.com/v/t51.82787-15/4_5_6_n.jpg''} =
      [''//scontent.cdninstagram.com/v/t51.82787-15/4_5_6_n.jpg'']"
    by simp
  moreover have "read_urls (save_urls_to_file
      [''//scontent.cdninstagram.com/v/t51.82787-15/4_5_6_n.jpg'']) = []"
    by code_simp
  moreover have "is_full_size_image ''//scontent.cdninstagram.com/v/t51.82787-15/4_5_6_n.jpg''"
    by code_simp
  moreover have "save_urls_to_file [''//scontent.cdninstagram.com/v/t51.82787-15/4_5_6_n.jpg''] =
     ''//scontent.cdninstagram.com/v/t51.82787-15/4_5_6_n.jpg'' @ [CHR 0x0A]"
    by (simp add: save_urls_to_file_def)
  ultimately show ?thesis
    by simp
qed

section \<open>Properties of the downloader\<close>

lemma files_log_event [simp]: "files (log_event e st) = files st"
  by (simp add: log_event_def)

lemma trace_log_event [simp]: "trace (log_event e st) = trace st @ [e]"
  by (simp add: log_event_def)

lemma requests_sent_log_event [simp]:
  "requests_sent (log_event e st) = (if is_request e then Suc (requests_sent st) else requests_sent st)"
  by (simp add: requests_sent_def)

lemma is_request_simps [simp]:
  "is_request (Request u)" "\<not> is_request (Backoff n)" "\<not> is_request (RateSleep d)"
  by (simp_all add: is_request_def)

lemma send_final_response:
  assumes "server w url (requests_sent st) = Responded r" and "status r \<notin> set status_forcelist"
  shows "send_with_retries w url left k st = (Inr r, log_event (Request url) st)"
  using assms by (subst send_with_retries.simps) (simp add: Let_def)

lemma send_retry_status:
  assumes "server w url (requests_sent st) = Responded r" and "status r \<in> set status_forcelist"
  shows "send_with_retries w url (Suc l) k st =
    send_with_retries w url l (Suc k)
      (log_event (Backoff (backoff_factor * 2 ^ k)) (log_event (Request url) st))"
  using assms by (subst send_with_retries.simps) (simp add: Let_def)

lemma send_exhausted_status:
  assumes "server w url (requests_sent st) = Responded r" and "status r \<in> set status_forcelist"
  shows "send_with_retries w url 0 k st = (Inl RetryError, log_event (Request url) st)"
  using assms by (subst send_with_retries.simps) (simp add: Let_def)

lemma session_get_always_503:
  assumes "\<forall>n. \<exists>r. server w url n = Responded r \<and> status r = 503"
  shows "session_get w url st =
    (Inl RetryError,
     st\<lparr>trace := trace st @ [Request url, Backoff 1, Request url, Backoff 2, Request url,
        Backoff 4, Request url]\<rparr>)"
proof -
  have f: "(503::nat) \<in> set status_forcelist"
    by (simp add: status_forcelist_def)
  have step: "send_with_retries w url (Suc l) k s =
      send_with_retries w url l (Suc k)
        (log_event (Backoff (backoff_factor * 2 ^ k)) (log_event (Request url) s))" for l k s
    using assms f send_retry_status [of w url s _ l k] by metis
  have last: "send_with_retries w url 0 k s = (Inl RetryError, log_event (Request url) s)" for k s
    using assms f send_exhausted_status [of w url s _ k] by metis
  show ?thesis
    by (simp add: session_get_def retry_total_def numeral_3_eq_3 step last
        log_event_def backoff_factor_def)
qed

lemma send_with_retries_effect:
  "files (snd (send_with_retries w url left k st)) = files st \<and>
   (\<exists>evs. trace (snd (send_with_retries w url left k st)) = trace st @ Request url # evs \<and>
      (\<forall>e\<in>set evs. is_request e \<longrightarrow> e = Request url) \<and>
      (\<forall>e\<in>set evs. \<forall>d. e \<noteq> RateSleep d))"
proof (induction left arbitrary: k st)
  case 0
  show ?case
    by (subst (1 2) send_with_retries.simps) (simp add: Let_def split: attempt.splits)
next
  case (Suc l)
  let ?st2 = "log_event (Backoff (backoff_factor * 2 ^ k)) (log_event (Request url) st)"
  from Suc [of "Suc k" ?st2] obtain evs where
    e: "files (snd (send_with_retries w url l (Suc k) ?st2)) = files st"
      "trace (snd (send_with_retries w url l (Suc k) ?st2)) =
        trace st @ Request url # Backoff (backoff_factor * 2 ^ k) # Request url # evs"
      "\<forall>e\<in>set evs. is_request e \<longrightarrow> e = Request url"
      "\<forall>e\<in>set evs. \<forall>d. e \<noteq> RateSleep d"
    by auto
  show ?case
  proof (cases "server w url (requests_sent st)")
    case TransportError
    with e show ?thesis
      by (subst (1 2) send_with_retries.simps) (simp add: Let_def)
  next
    case (Responded r)
    with e show ?thesis
      by (subst (1 2) send_with_retries.simps) (simp add: Let_def)
  qed
qed

lemma session_get_effect:
  assumes "session_get w url st = (res, st1)"
  shows "files st1 = files st"
    and "\<exists>evs. trace st1 = trace st @ Request url # evs \<and>
      (\<forall>e\<in>set evs. is_request e \<longrightarrow> e = Request url) \<and>
      (\<forall>e\<in>set evs. \<forall>d. e \<noteq> RateSleep d)"
  using send_with_retries_effect [of w url retry_total 0 st] assms
  by (simp_all add: session_get_def)

lemma download_image_existing:
  assumes "get_filename_from_url w url index = Inr filename" and "filename \<in> files st"
  shows "download_image w url index delay st = ((True, Some filename, None), st)"
  using assms by (simp add: download_image_def)

lemma download_image_effect:
  assumes "download_image w url index delay st = (out, st')"
  shows "files st \<subseteq> files st'"
    and "\<exists>evs. trace st' = trace st @ evs \<and> (\<forall>e\<in>set evs. is_request e \<longrightarrow> e = Request url)"
    and "fst out \<Longrightarrow> \<exists>filename. get_filename_from_url w url index = Inr filename \<and>
           filename \<in> files st' \<and> out = (True, Some filename, None)"
    and "\<not> fst out \<Longrightarrow> \<forall>d. RateSleep d \<notin> set (drop (length (trace st)) (trace st'))"
proof -
  obtain res st1 where sg: "session_get w url st = (res, st1)"
    by (cases "session_get w url st")
  from session_get_effect [OF sg] obtain evs where
    e: "files st1 = files st" "trace st1 = trace st @ Request url # evs"
      "\<forall>e\<in>set evs. is_request e \<longrightarrow> e = Request url" "\<forall>e\<in>set evs. \<forall>d. e \<noteq> RateSleep d"
    by blast
  show "files st \<subseteq> files st'"
    using assms sg e(1)
    by (auto simp: download_image_def Let_def split: sum.splits if_splits)
  show "\<exists>evs. trace st' = trace st @ evs \<and> (\<forall>e\<in>set evs. is_request e \<longrightarrow> e = Request url)"
  proof (cases "trace st' = trace st")
    case True
    then show ?thesis by simp
  next
    case False
    with assms sg e(2) have "trace st' = trace st @ Request url # evs \<or>
        trace st' = trace st @ Request url # evs @ [RateSleep delay]"
      by (auto simp: download_image_def Let_def split: sum.splits if_splits)
    with e(3) show ?thesis
      by auto
  qed
  show "\<exists>filename. get_filename_from_url w url index = Inr filename \<and>
      filename \<in> files st' \<and> out = (True, Some filename, None)" if "fst out"
    using that assms sg
    by (auto simp: download_image_def Let_def split: sum.splits if_splits)
  show "\<forall>d. RateSleep d \<notin> set (drop (length (trace st)) (trace st'))" if "\<not> fst out"
  proof -
    from that assms sg e(2) have "trace st' = trace st \<or> trace st' = trace st @ Request url # evs"
      by (auto simp: download_image_def Let_def split: sum.splits if_splits)
    with e(4) show ?thesis
      by auto
  qed
qed

lemma download_loop_download_all:
  "download_loop w delay i urls (succ, fail, outs) st =
     (case download_all w delay i urls st of
        (new, st') \<Rightarrow>
          ((succ + length (filter fst new), fail + length (filter (\<lambda>out. \<not> fst out) new),
            outs @ new), st'))"
proof (induction urls arbitrary: i succ fail outs st)
  case Nil
  show ?case by simp
next
  case (Cons url urls)
  obtain out st1 where d: "download_image w url (Some i) delay st = (out, st1)"
    by (cases "download_image w url (Some i) delay st")
  obtain new st2 where a: "download_all w delay (i + 1) urls st1 = (new, st2)"
    by (cases "download_all w delay (i + 1) urls st1")
  show ?case
  proof (cases "fst out")
    case True
    with d a Cons [of "i + 1" "succ + 1" fail "outs @ [out]" st1] show ?thesis
      by simp
  next
    case False
    with d a Cons [of "i + 1" succ "fail + 1" "outs @ [out]" st1] show ?thesis
      by simp
  qed
qed

lemma download_all_length: "length (fst (download_all w delay i urls st)) = length urls"
proof (induction urls arbitrary: i st)
  case Nil
  show ?case by simp
next
  case (Cons url urls)
  obtain out st1 where d: "download_image w url (Some i) delay st = (out, st1)"
    by (cases "download_image w url (Some i) delay st")
  obtain new st2 where a: "download_all w delay (i + 1) urls st1 = (new, st2)"
    by (cases "download_all w delay (i + 1) urls st1")
  from Cons [of "i + 1" st1] d a show ?case
    by simp
qed

lemma download_all_files_mono: "files st \<subseteq> files (snd (download_all w delay i urls st))"
proof (induction urls arbitrary: i st)
  case Nil
  show ?case by simp
next
  case (Cons url urls)
  obtain out st1 where d: "download_image w url (Some i) delay st = (out, st1)"
    by (cases "download_image w url (Some i) delay st")
  from download_image_effect(1) [OF d] Cons [of st1 "i + 1"] d show ?case
    by (auto split: prod.splits)
qed

lemma download_all_each_attempted:
  "k < length urls \<Longrightarrow>
     \<exists>st_k. fst (download_all w delay i urls st) ! k =
       fst (download_image w (urls ! k) (Some (i + int k)) delay st_k)"
proof (induction urls arbitrary: i st k)
  case Nil
  then show ?case by simp
next
  case (Cons url urls)
  obtain out st1 where d: "download_image w url (Some i) delay st = (out, st1)"
    by (cases "download_image w url (Some i) delay st")
  obtain new st2 where a: "download_all w delay (i + 1) urls st1 = (new, st2)"
    by (cases "download_all w delay (i + 1) urls st1")
  show ?case
  proof (cases k)
    case 0
    with d a show ?thesis
      by (auto intro: exI [of _ st])
  next
    case (Suc j)
    with Cons.prems have "j < length urls"
      by simp
    from Cons.IH [OF this, of "i + 1" st1] a obtain st_k where
      "new ! j = fst (download_image w (urls ! j) (Some (i + 1 + int j)) delay st_k)"
      by auto
    with Suc d a show ?thesis
      by (auto simp: add.assoc intro: exI [of _ st_k])
  qed
qed

lemma same_filename:
  assumes "urlparse_path w2 = urlparse_path w1"
    and "uses_hash_fallback w1 url \<longrightarrow> str_hash w2 url mod 1000000 = str_hash w1 url mod 1000000"
  shows "get_filename_from_url w2 url index = get_filename_from_url w1 url index"
  using assms
  by (auto simp: get_filename_from_url_def uses_hash_fallback_def Let_def split: option.splits)

lemma rerun_download_all:
  "\<forall>u\<in>set urls. \<forall>j. get_filename_from_url w2 u j = get_filename_from_url w1 u j \<Longrightarrow>
    download_all w1 d1 i urls sA = (o1, sA') \<Longrightarrow>
    download_all w2 d2 i urls sB = (o2, sB') \<Longrightarrow>
    files sA' \<subseteq> files sB \<Longrightarrow>
      length (filter fst o1) \<le> length (filter fst o2) \<and>
      (\<forall>(a, b)\<in>set (zip o1 o2). fst a \<longrightarrow> b = a) \<and>
      (\<exists>evs. trace sB' = trace sB @ evs \<and>
         (\<forall>e\<in>set evs. is_request e \<longrightarrow> (\<exists>(u, a)\<in>set (zip urls o1). e = Request u \<and> \<not> fst a))) \<and>
      ((\<forall>a\<in>set o1. fst a) \<longrightarrow> sB' = sB \<and> o2 = o1)"
proof (induction urls arbitrary: i sA sB o1 o2)
  case Nil
  then show ?case by simp
next
  case (Cons url urls)
  obtain out1 sA1 where d1: "download_image w1 url (Some i) d1 sA = (out1, sA1)"
    by (cases "download_image w1 url (Some i) d1 sA")
  obtain r1 sA2 where a1: "download_all w1 d1 (i + 1) urls sA1 = (r1, sA2)"
    by (cases "download_all w1 d1 (i + 1) urls sA1")
  obtain out2 sB1 where d2: "download_image w2 url (Some i) d2 sB = (out2, sB1)"
    by (cases "download_image w2 url (Some i) d2 sB")
  obtain r2 sB2 where a2: "download_all w2 d2 (i + 1) urls sB1 = (r2, sB2)"
    by (cases "download_all w2 d2 (i + 1) urls sB1")
  from Cons.prems(2) d1 a1 have o1: "o1 = out1 # r1" and sA2: "sA2 = sA'"
    by simp_all
  from Cons.prems(3) d2 a2 have o2: "o2 = out2 # r2" and sB2: "sB2 = sB'"
    by simp_all
  from Cons.prems(1) have names: "get_filename_from_url w2 url (Some i) = get_filename_from_url w1 url (Some i)"
    and names': "\<forall>u\<in>set urls. \<forall>j. get_filename_from_url w2 u j = get_filename_from_url w1 u j"
    by simp_all
  from download_image_effect(1) [OF d2] Cons.prems(4) have sub: "files sA' \<subseteq> files sB1"
    by blast
  from Cons.IH [OF names' a1 [unfolded sA2] a2 [unfolded sB2] sub]
  obtain evs where ih:
    "length (filter fst r1) \<le> length (filter fst r2)"
    "\<forall>(a, b)\<in>set (zip r1 r2). fst a \<longrightarrow> b = a"
    "trace sB' = trace sB1 @ evs"
    "\<forall>e\<in>set evs. is_request e \<longrightarrow> (\<exists>(u, a)\<in>set (zip urls r1). e = Request u \<and> \<not> fst a)"
    "(\<forall>a\<in>set r1. fst a) \<longrightarrow> sB' = sB1 \<and> r2 = r1"
    by blast
  show ?case
  proof (cases "fst out1")
    case True
    from download_image_effect(3) [OF d1 True] obtain filename where
      f: "get_filename_from_url w1 url (Some i) = Inr filename" "filename \<in> files sA1"
        "out1 = (True, Some filename, None)"
      by blast
    from download_all_files_mono [of sA1 w1 d1 "i + 1" urls] a1 sA2 have "files sA1 \<subseteq> files sA'"
      by simp
    with f(2) Cons.prems(4) have "filename \<in> files sB"
      by blast
    with f(1) names have "download_image w2 url (Some i) d2 sB = ((True, Some filename, None), sB)"
      by (simp add: download_image_existing)
    with d2 f(3) have same: "out2 = out1" "sB1 = sB"
      by simp_all
    from ih(4) have "\<forall>e\<in>set evs. is_request e \<longrightarrow>
        (\<exists>(u, a)\<in>set (zip (url # urls) o1). e = Request u \<and> \<not> fst a)"
      unfolding o1 by auto
    with ih(1,2,3,5) same True show ?thesis
      unfolding o1 o2 by auto
  next
    case False
    from download_image_effect(2) [OF d2] obtain evs0 where
      e0: "trace sB1 = trace sB @ evs0" "\<forall>e\<in>set evs0. is_request e \<longrightarrow> e = Request url"
      by blast
    have "\<forall>e\<in>set (evs0 @ evs). is_request e \<longrightarrow>
        (\<exists>(u, a)\<in>set (zip (url # urls) o1). e = Request u \<and> \<not> fst a)"
    proof
      fix e
      assume "e \<in> set (evs0 @ evs)"
      then consider "e \<in> set evs0" | "e \<in> set evs"
        by auto
      then show "is_request e \<longrightarrow> (\<exists>(u, a)\<in>set (zip (url # urls) o1). e = Request u \<and> \<not> fst a)"
      proof cases
        case 1
        with e0(2) False show ?thesis
          unfolding o1 by auto
      next
        case 2
        with ih(4) show ?thesis
          unfolding o1 by auto
      qed
    qed
    moreover from e0(1) ih(3) have "trace sB' = trace sB @ (evs0 @ evs)"
      by simp
    moreover from ih(1) False have "length (filter fst o1) \<le> length (filter fst o2)"
      unfolding o1 o2 by simp
    moreover from ih(2) False have "\<forall>(a, b)\<in>set (zip o1 o2). fst a \<longrightarrow> b = a"
      unfolding o1 o2 by auto
    moreover from False have "\<not> (\<forall>a\<in>set o1. fst a)"
      unfolding o1 by auto
    ultimately show ?thesis
      by blast
  qed
qed

lemma download_image_final_response:
  assumes "get_filename_from_url w url index = Inr filename" and "filename \<notin> files st"
    and "server w url (requests_sent st) = Responded r" and "status r \<notin> set status_forcelist"
  shows "download_image w url index delay st =
    (if raises_for_status r then ((False, None, Some (Raised (HTTPError (status r)))), log_event (Request url) st)
     else if \<not> py_in ''image'' (or_empty (content_type r))
       then ((False, None, Some (NotAnImage (or_empty (content_type r)))), log_event (Request url) st)
     else if \<not> can_open w filename then ((False, None, Some (Raised OSError)), log_event (Request url) st)
     else if \<not> body_ok r
       then ((False, None, Some (Raised ChunkedEncodingError)),
             (log_event (Request url) st)\<lparr>files := insert filename (files st)\<rparr>)
     else if delay < 0
       then ((False, None, Some (Raised ValueError)),
             (log_event (Request url) st)\<lparr>files := insert filename (files st)\<rparr>)
     else ((True, Some filename, None),
           log_event (RateSleep delay)
             ((log_event (Request url) st)\<lparr>files := insert filename (files st)\<rparr>)))"
  using assms send_final_response [OF assms(3,4), of retry_total 0]
  by (simp add: download_image_def session_get_def Let_def)

lemma download_image_always_503:
  assumes "get_filename_from_url w url index = Inr filename" and "filename \<notin> files st"
    and "\<forall>n. \<exists>r. server w url n = Responded r \<and> status r = 503"
  shows "download_image w url index delay st =
    ((False, None, Some (Raised RetryError)),
     st\<lparr>trace := trace st @ [Request url, Backoff 1, Request url, Backoff 2, Request url,
        Backoff 4, Request url]\<rparr>)"
  using assms(1,2) session_get_always_503 [OF assms(3), of st]
  by (simp add: download_image_def)

lemma format_04d_small:
  "format_04d 1 = ''0001''" "format_04d 2 = ''0002''" "format_04d 3 = ''0003''"
  by code_simp+

lemma indexed_name_prefix:
  assumes "get_filename_from_url w url (Some i) = Inr filename"
  shows "prefix (format_04d i @ ''_'') filename"
  using assms by (auto simp: get_filename_from_url_def Let_def split: option.splits)

lemma download_images_from_file_nonempty:
  assumes "read_urls text \<noteq> []"
  shows "download_images_from_file w text delay st =
    (case download_all w delay 1 (read_urls text) st of
       (outs, st') \<Rightarrow>
         (Some (\<lparr>successful = length (filter fst outs),
                 failed = length (filter (\<lambda>out. \<not> fst out) outs),
                 total = length (read_urls text)\<rparr>, outs), st'))"
  using assms
  by (simp add: download_images_from_file_def Let_def download_loop_download_all split: prod.splits)

lemma three_url_scenario:
  assumes names: "get_filename_from_url w u1 (Some 1) = Inr f1"
      "get_filename_from_url w u2 (Some 2) = Inr f2"
      "get_filename_from_url w u3 (Some 3) = Inr f3"
    and fresh: "f1 \<notin> files st" "f2 \<notin> files st" "f3 \<notin> files st"
    and r1: "\<forall>n. server w u1 n =
        Responded \<lparr>status = 200, content_type = Some ''image/jpeg'', body_ok = True\<rparr>"
    and r2: "\<forall>n. server w u2 n =
        Responded \<lparr>status = 200, content_type = Some ''text/html'', body_ok = True\<rparr>"
    and r3: "\<forall>n. \<exists>r. server w u3 n = Responded r \<and> status r = 503"
    and disk: "can_open w f1" and delay: "0 \<le> delay"
  shows "download_all w delay 1 [u1, u2, u3] st =
    ([(True, Some f1, None), (False, None, Some (NotAnImage ''text/html'')),
      (False, None, Some (Raised RetryError))],
     st\<lparr>files := insert f1 (files st),
        trace := trace st @ [Request u1, RateSleep delay, Request u2,
          Request u3, Backoff 1, Request u3, Backoff 2, Request u3, Backoff 4, Request u3]\<rparr>)"
proof -
  have ok: "(200::nat) \<notin> set status_forcelist"
    by (simp add: status_forcelist_def)
  have img: "py_in ''image'' ''image/jpeg''" "\<not> py_in ''image'' ''text/html''"
    by simp_all
  from indexed_name_prefix [OF names(1)] indexed_name_prefix [OF names(2)]
    indexed_name_prefix [OF names(3)]
  have ne: "f2 \<noteq> f1" "f3 \<noteq> f1"
    by (auto simp: format_04d_small prefix_def)
  define st1 where "st1 = st\<lparr>files := insert f1 (files st),
    trace := trace st @ [Request u1, RateSleep delay]\<rparr>"
  define st2 where "st2 = st1\<lparr>trace := trace st1 @ [Request u2]\<rparr>"
  have s1: "download_image w u1 (Some 1) delay st = ((True, Some f1, None), st1)"
    using download_image_final_response [OF names(1) fresh(1) r1 [rule_format], of delay]
      ok img disk delay
    by (simp add: raises_for_status_def or_empty_def log_event_def st1_def)
  have "f2 \<notin> files st1"
    using fresh(2) ne by (simp add: st1_def)
  from download_image_final_response [OF names(2) this r2 [rule_format], of delay] ok img
  have s2: "download_image w u2 (Some 2) delay st1 =
      ((False, None, Some (NotAnImage ''text/html'')), st2)"
    by (simp add: raises_for_status_def or_empty_def log_event_def st2_def)
  have "f3 \<notin> files st2"
    using fresh(3) ne by (simp add: st1_def st2_def)
  from download_image_always_503 [OF names(3) this r3, of delay]
  have s3: "download_image w u3 (Some 3) delay st2 =
      ((False, None, Some (Raised RetryError)),
       st2\<lparr>trace := trace st2 @ [Request u3, Backoff 1, Request u3, Backoff 2, Request u3,
          Backoff 4, Request u3]\<rparr>)" .
  show ?thesis
    by (simp add: s1 s2 s3) (simp add: st1_def st2_def)
qed

lemma digit_char_table:
  "digit_char 0 = CHR ''0''" "digit_char 1 = CHR ''1''" "digit_char 2 = CHR ''2''"
  "digit_char 3 = CHR ''3''" "digit_char 4 = CHR ''4''" "digit_char 5 = CHR ''5''"
  "digit_char 6 = CHR ''6''" "digit_char 7 = CHR ''7''" "digit_char 8 = CHR ''8''"
  "digit_char 9 = CHR ''9''" "digit_char (Suc 0) = CHR ''1''"
  by code_simp+

lemma example_paths:
  "url_path ''https://www.instagram.com/p/CxYz123/'' = Some ''/p/CxYz123/''"
  "search_image_id ''/p/CxYz123/'' = None"
  "basename ''/p/CxYz123/'' = []"
  by code_simp+

lemma example_world_sel:
  "urlparse_path (example_world h) = url_path" "str_hash (example_world h) u = h"
  "can_open (example_world h) f"
  by (simp_all add: example_world_def)

lemma fallback_filename:
  assumes "uses_hash_fallback w url"
  shows "get_filename_from_url w url (Some i) =
    Inr (format_04d i @ ''_'' @ ''image_'' @ str_nat (nat (str_hash w url mod 1000000)) @ ''.jpg'')"
  using assms
  by (auto simp: get_filename_from_url_def uses_hash_fallback_def Let_def split: option.splits)

lemma example_names:
  "get_filename_from_url (example_world 0)
     ''https://scontent.cdninstagram.com/v/t51.82787-15/1_2_3_n.jpg?stp=dst-jpg_e35'' (Some 1) =
     Inr ''0001_1_2_3_n.jpg''"
  "get_filename_from_url (example_world 0) ''https://www.instagram.com/p/CxYz123/'' (Some 2) =
     Inr ''0002_image_0.jpg''"
  "get_filename_from_url (example_world 0)
     ''https://scontent.cdninstagram.com/v/t51.82787-15/4_5_6_n.jpg'' (Some 3) =
     Inr ''0003_4_5_6_n.jpg''"
  "get_filename_from_url (example_world 0)
     ''https://scontent.cdninstagram.com/v/t51.82787-15/4_5_6_n.jpg'' (Some 1) =
     Inr ''0001_4_5_6_n.jpg''"
  "get_filename_from_url (example_world 0)
     ''https://scontent.cdninstagram.com/v/t51.82787-15/7_8_9_n.jpg'' (Some 1) =
     Inr ''0001_7_8_9_n.jpg''"
  by code_simp+

lemma example_urls:
  "read_urls (save_urls_to_file
     [''https://scontent.cdninstagram.com/v/t51.82787-15/1_2_3_n.jpg?stp=dst-jpg_e35'',
      ''https://www.instagram.com/p/CxYz123/'',
      ''https://scontent.cdninstagram.com/v/t51.82787-15/4_5_6_n.jpg'']) =
     [''https://scontent.cdninstagram.com/v/t51.82787-15/1_2_3_n.jpg?stp=dst-jpg_e35'',
      ''https://www.instagram.com/p/CxYz123/'',
      ''https://scontent.cdninstagram.com/v/t51.82787-15/4_5_6_n.jpg'']"
  by (rule read_saved_urls) code_simp

text \<open>
  C3. Within one process the name is a function of the URL and the index. Across
  processes it is not: when the path has no content identifier and its last segment is
  empty or has no dot, the name is built from \<open>hash(url)\<close>, and the built-in hash of a
  string differs from process to process. For the post URL below the path is
  \<open>/p/CxYz123/\<close>; under the hash values of two processes (seeds 1 and 2) the same URL
  and index give two different names.
\<close>

theorem hash_fallback_name_changes_with_process:
  "uses_hash_fallback (example_world 309941368070962678) ''https://www.instagram.com/p/CxYz123/'' \<and>
   get_filename_from_url (example_world 309941368070962678)
     ''https://www.instagram.com/p/CxYz123/'' (Some 2) = Inr ''0002_image_962678.jpg'' \<and>
   get_filename_from_url (example_world 1682879517229138208)
     ''https://www.instagram.com/p/CxYz123/'' (Some 2) = Inr ''0002_image_138208.jpg''"
proof -
  have f: "uses_hash_fallback (example_world h) ''https://www.instagram.com/p/CxYz123/''" for h
    by code_simp
  have n: "str_nat 962678 = ''962678''" "str_nat 138208 = ''138208''"
    by (simp_all add: str_nat.simps digit_char_table)
  show ?thesis
    by (simp add: f fallback_filename example_world_sel format_04d_small n)
qed

text \<open>
  C4. For a URL whose target file does not exist yet: if the host answers 404, the
  download fails at once with the HTTP error after a single request and no backoff; if the
  host answers 503 to every attempt, the request is sent four times (the first attempt
  and the three retries of \<open>retry_total\<close>) with backoff sleeps of 1, 2 and 4 seconds in
  between, and the download then fails. A first answer with a status outside the force
  list is never retried.
\<close>

theorem retry_only_for_listed_statuses:
  assumes "get_filename_from_url w url index = Inr filename" and "filename \<notin> files st"
  shows
    "(\<forall>r. server w url (requests_sent st) = Responded r \<and> status r = 404 \<longrightarrow>
        download_image w url index delay st =
          ((False, None, Some (Raised (HTTPError 404))), st\<lparr>trace := trace st @ [Request url]\<rparr>)) \<and>
     ((\<forall>n. \<exists>r. server w url n = Responded r \<and> status r = 503) \<longrightarrow>
        download_image w url index delay st =
          ((False, None, Some (Raised RetryError)),
           st\<lparr>trace := trace st @ [Request url, Backoff 1, Request url, Backoff 2, Request url,
              Backoff 4, Request url]\<rparr>)) \<and>
     (\<forall>r. server w url (requests_sent st) = Responded r \<and> status r \<notin> set status_forcelist \<longrightarrow>
        requests_sent (snd (download_image w url index delay st)) = Suc (requests_sent st) \<and>
        (\<forall>n. Backoff n \<notin> set (drop (length (trace st))
           (trace (snd (download_image w url index delay st))))))"
proof (intro conjI allI impI)
  fix r
  assume a: "server w url (requests_sent st) = Responded r \<and> status r = 404"
  then have "status r \<notin> set status_forcelist" "raises_for_status r"
    by (simp_all add: status_forcelist_def raises_for_status_def)
  with download_image_final_response [OF assms, of r delay] a
  show "download_image w url index delay st =
      ((False, None, Some (Raised (HTTPError 404))), st\<lparr>trace := trace st @ [Request url]\<rparr>)"
    by (simp add: log_event_def)
next
  assume "\<forall>n. \<exists>r. server w url n = Responded r \<and> status r = 503"
  with assms show "download_image w url index delay st =
      ((False, None, Some (Raised RetryError)),
       st\<lparr>trace := trace st @ [Request url, Backoff 1, Request url, Backoff 2, Request url,
          Backoff 4, Request url]\<rparr>)"
    by (rule download_image_always_503)
next
  fix r
  assume a: "server w url (requests_sent st) = Responded r \<and> status r \<notin> set status_forcelist"
  with download_image_final_response [OF assms, of r delay]
  show "requests_sent (snd (download_image w url index delay st)) = Suc (requests_sent st)"
    by (simp add: requests_sent_def log_event_def)
next
  fix r n
  assume a: "server w url (requests_sent st) = Responded r \<and> status r \<notin> set status_forcelist"
  with download_image_final_response [OF assms, of r delay]
  show "Backoff n \<notin> set (drop (length (trace st))
      (trace (snd (download_image w url index delay st))))"
    by (simp add: log_event_def)
qed

theorem retry_only_for_listed_statuses_witness:
  "download_image (example_world 0)
     ''https://scontent.cdninstagram.com/v/t51.82787-15/7_8_9_n.jpg'' (Some 1) 500
     \<lparr>files = {}, trace = []\<rparr> =
     ((False, None, Some (Raised (HTTPError 404))),
      \<lparr>files = {}, trace = [Request ''https://scontent.cdninstagram.com/v/t51.82787-15/7_8_9_n.jpg'']\<rparr>) \<and>
   download_image (example_world 0)
     ''https://scontent.cdninstagram.com/v/t51.82787-15/4_5_6_n.jpg'' (Some 1) 500
     \<lparr>files = {}, trace = []\<rparr> =
     ((False, None, Some (Raised RetryError)),
      \<lparr>files = {}, trace =
        [Request ''https://scontent.cdninstagram.com/v/t51.82787-15/4_5_6_n.jpg'', Backoff 1,
         Request ''https://scontent.cdninstagram.com/v/t51.82787-15/4_5_6_n.jpg'', Backoff 2,
         Request ''https://scontent.cdninstagram.com/v/t51.82787-15/4_5_6_n.jpg'', Backoff 4,
         Request ''https://scontent.cdninstagram.com/v/t51.82787-15/4_5_6_n.jpg'']\<rparr>)"
proof -
  let ?st = "\<lparr>files = {}, trace = []\<rparr>"
  let ?d = "''https://scontent.cdninstagram.com/v/t51.82787-15/7_8_9_n.jpg''"
  let ?c = "''https://scontent.cdninstagram.com/v/t51.82787-15/4_5_6_n.jpg''"
  have d: "server (example_world 0) ?d (requests_sent ?st) = Responded (error_response 404) \<and>
      status (error_response 404) = 404"
    by (simp add: example_world_def error_response_def)
  have c: "\<forall>n. \<exists>r. server (example_world 0) ?c n = Responded r \<and> status r = 503"
    by (simp add: example_world_def error_response_def)
  have fresh: "''0001_7_8_9_n.jpg'' \<notin> files ?st" "''0001_4_5_6_n.jpg'' \<notin> files ?st"
    by simp_all
  from retry_only_for_listed_statuses [OF example_names(5) fresh(1), of 500] d
  have "download_image (example_world 0) ?d (Some 1) 500 ?st =
      ((False, None, Some (Raised (HTTPError 404))), ?st\<lparr>trace := trace ?st @ [Request ?d]\<rparr>)"
    by blast
  moreover from retry_only_for_listed_statuses [OF example_names(4) fresh(2), of 500] c
  have "download_image (example_world 0) ?c (Some 1) 500 ?st =
      ((False, None, Some (Raised RetryError)),
       ?st\<lparr>trace := trace ?st @ [Request ?c, Backoff 1, Request ?c, Backoff 2, Request ?c,
          Backoff 4, Request ?c]\<rparr>)"
    by blast
  ultimately show ?thesis
    by simp
qed

text \<open>
  C5 (amended). For every URL file with at least one URL line, every URL is attempted
  once, in order, with its index, whatever happened to the others, and the summary has
  successful + failed = total = the number of URLs. For three URLs whose target files
  are not yet in the output directory, the first answered with 200 and \<open>image/jpeg\<close>,
  the second with 200 and \<open>text/html\<close>, the third with 503 on every attempt, the summary
  is 1 successful, 2 failed, 3 total; the second fails as \<open>NotAnImage\<close>, the third with
  the retry error. A file without a URL line makes the function return before the loop,
  with no summary.
\<close>

theorem batch_summary_adds_up:
  "(read_urls text \<noteq> [] \<longrightarrow>
      (\<exists>s outs st'. download_images_from_file w text delay st = (Some (s, outs), st') \<and>
         successful s + failed s = total s \<and> total s = length (read_urls text) \<and>
         length outs = length (read_urls text) \<and>
         successful s = length (filter fst outs) \<and>
         (\<forall>k<length (read_urls text). \<exists>st_k. outs ! k =
            fst (download_image w (read_urls text ! k) (Some (1 + int k)) delay st_k)))) \<and>
   (read_urls text = [ua, ub, uc] \<and>
    get_filename_from_url w ua (Some 1) = Inr fa \<and>
    get_filename_from_url w ub (Some 2) = Inr fb \<and>
    get_filename_from_url w uc (Some 3) = Inr fc \<and>
    fa \<notin> files st \<and> fb \<notin> files st \<and> fc \<notin> files st \<and>
    (\<forall>n. server w ua n =
       Responded \<lparr>status = 200, content_type = Some ''image/jpeg'', body_ok = True\<rparr>) \<and>
    (\<forall>n. server w ub n =
       Responded \<lparr>status = 200, content_type = Some ''text/html'', body_ok = True\<rparr>) \<and>
    (\<forall>n. \<exists>r. server w uc n = Responded r \<and> status r = 503) \<and>
    can_open w fa \<and> 0 \<le> delay \<longrightarrow>
    fst (download_images_from_file w text delay st) =
      Some (\<lparr>successful = 1, failed = 2, total = 3\<rparr>,
        [(True, Some fa, None), (False, None, Some (NotAnImage ''text/html'')),
         (False, None, Some (Raised RetryError))]))"
proof (intro conjI impI)
  assume ne: "read_urls text \<noteq> []"
  obtain outs st' where a: "download_all w delay 1 (read_urls text) st = (outs, st')"
    by (cases "download_all w delay 1 (read_urls text) st")
  from download_all_length [of w delay 1 "read_urls text" st] a
  have len: "length outs = length (read_urls text)"
    by simp
  have each: "\<forall>k<length (read_urls text). \<exists>st_k. outs ! k =
      fst (download_image w (read_urls text ! k) (Some (1 + int k)) delay st_k)"
    using download_all_each_attempted [of _ "read_urls text" w delay 1 st] a by simp
  let ?s = "\<lparr>successful = length (filter fst outs),
    failed = length (filter (\<lambda>out. \<not> fst out) outs), total = length (read_urls text)\<rparr>"
  have "download_images_from_file w text delay st = (Some (?s, outs), st')"
    using download_images_from_file_nonempty [OF ne, of w delay st] a by simp
  moreover have "successful ?s + failed ?s = total ?s"
    using sum_length_filter_compl [of fst outs] len by simp
  ultimately show "\<exists>s outs st'. download_images_from_file w text delay st = (Some (s, outs), st') \<and>
      successful s + failed s = total s \<and> total s = length (read_urls text) \<and>
      length outs = length (read_urls text) \<and>
      successful s = length (filter fst outs) \<and>
      (\<forall>k<length (read_urls text). \<exists>st_k. outs ! k =
         fst (download_image w (read_urls text ! k) (Some (1 + int k)) delay st_k))"
    using len each by (intro exI [of _ ?s] exI [of _ outs] exI [of _ st']) simp
next
  assume h: "read_urls text = [ua, ub, uc] \<and>
    get_filename_from_url w ua (Some 1) = Inr fa \<and>
    get_filename_from_url w ub (Some 2) = Inr fb \<and>
    get_filename_from_url w uc (Some 3) = Inr fc \<and>
    fa \<notin> files st \<and> fb \<notin> files st \<and> fc \<notin> files st \<and>
    (\<forall>n. server w ua n =
       Responded \<lparr>status = 200, content_type = Some ''image/jpeg'', body_ok = True\<rparr>) \<and>
    (\<forall>n. server w ub n =
       Responded \<lparr>status = 200, content_type = Some ''text/html'', body_ok = True\<rparr>) \<and>
    (\<forall>n. \<exists>r. server w uc n = Responded r \<and> status r = 503) \<and>
    can_open w fa \<and> 0 \<le> delay"
  then have ne: "read_urls text \<noteq> []"
    by simp
  from h have "download_all w delay 1 (read_urls text) st =
    ([(True, Some fa, None), (False, None, Some (NotAnImage ''text/html'')),
      (False, None, Some (Raised RetryError))],
     st\<lparr>files := insert fa (files st),
        trace := trace st @ [Request ua, RateSleep delay, Request ub,
          Request uc, Backoff 1, Request uc, Backoff 2, Request uc, Backoff 4, Request uc]\<rparr>)"
    using three_url_scenario [of w ua fa ub fb uc fc st delay] by simp
  with download_images_from_file_nonempty [OF ne, of w delay st] h
  show "fst (download_images_from_file w text delay st) =
        Some (\<lparr>successful = 1, failed = 2, total = 3\<rparr>,
          [(True, Some fa, None), (False, None, Some (NotAnImage ''text/html'')),
           (False, None, Some (Raised RetryError))])"
    by simp
qed

theorem batch_summary_adds_up_witness:
  "fst (download_images_from_file (example_world 0)
     (save_urls_to_file
       [''https://scontent.cdninstagram.com/v/t51.82787-15/1_2_3_n.jpg?stp=dst-jpg_e35'',
        ''https://www.instagram.com/p/CxYz123/'',
        ''https://scontent.cdninstagram.com/v/t51.82787-15/4_5_6_n.jpg''])
     500 \<lparr>files = {}, trace = []\<rparr>) =
   Some (\<lparr>successful = 1, failed = 2, total = 3\<rparr>,
     [(True, Some ''0001_1_2_3_n.jpg'', None), (False, None, Some (NotAnImage ''text/html'')),
      (False, None, Some (Raised RetryError))])"
proof -
  let ?a = "''https://scontent.cdninstagram.com/v/t51.82787-15/1_2_3_n.jpg?stp=dst-jpg_e35''"
  let ?b = "''https://www.instagram.com/p/CxYz123/''"
  let ?c = "''https://scontent.cdninstagram.com/v/t51.82787-15/4_5_6_n.jpg''"
  let ?st = "\<lparr>files = {}, trace = []\<rparr>"
  have srv: "\<forall>n. server (example_world 0) ?a n =
      Responded \<lparr>status = 200, content_type = Some ''image/jpeg'', body_ok = True\<rparr>"
    "\<forall>n. server (example_world 0) ?b n =
      Responded \<lparr>status = 200, content_type = Some ''text/html'', body_ok = True\<rparr>"
    "\<forall>n. \<exists>r. server (example_world 0) ?c n = Responded r \<and> status r = 503"
    by (simp_all add: example_world_def image_response_def html_response_def error_response_def)
  have disk: "can_open (example_world 0) ''0001_1_2_3_n.jpg''"
    by (simp add: example_world_def)
  have fresh: "''0001_1_2_3_n.jpg'' \<notin> files ?st" "''0002_image_0.jpg'' \<notin> files ?st"
    "''0003_4_5_6_n.jpg'' \<notin> files ?st"
    by simp_all
  have "read_urls (save_urls_to_file [?a, ?b, ?c]) = [?a, ?b, ?c] \<and>
    get_filename_from_url (example_world 0) ?a (Some 1) = Inr ''0001_1_2_3_n.jpg'' \<and>
    get_filename_from_url (example_world 0) ?b (Some 2) = Inr ''0002_image_0.jpg'' \<and>
    get_filename_from_url (example_world 0) ?c (Some 3) = Inr ''0003_4_5_6_n.jpg'' \<and>
    ''0001_1_2_3_n.jpg'' \<notin> files ?st \<and> ''0002_image_0.jpg'' \<notin> files ?st \<and>
    ''0003_4_5_6_n.jpg'' \<notin> files ?st \<and>
    (\<forall>n. server (example_world 0) ?a n =
       Responded \<lparr>status = 200, content_type = Some ''image/jpeg'', body_ok = True\<rparr>) \<and>
    (\<forall>n. server (example_world 0) ?b n =
       Responded \<lparr>status = 200, content_type = Some ''text/html'', body_ok = True\<rparr>) \<and>
    (\<forall>n. \<exists>r. server (example_world 0) ?c n = Responded r \<and> status r = 503) \<and>
    can_open (example_world 0) ''0001_1_2_3_n.jpg'' \<and> (0::int) \<le> 500"
    by (intro conjI example_urls example_names(1,2,3) fresh srv disk) simp
  then show ?thesis
    by (rule batch_summary_adds_up [THEN conjunct2, THEN mp])
qed

text \<open>
  C5 as stated fails in two ways. For a URL file without a URL line the function returns
  after "No URLs found in file!" and reports no summary. And in the three-line scenario,
  when the output directory already holds the target file of the second URL, that URL
  counts as a success without being fetched: the summary is 2 successful, 1 failed.
\<close>

theorem no_summary_or_two_successes:
  "read_urls [] = [] \<and>
   fst (download_images_from_file (example_world 0) [] 500 \<lparr>files = {}, trace = []\<rparr>) = None \<and>
   fst (download_images_from_file (example_world 0)
     (save_urls_to_file
       [''https://scontent.cdninstagram.com/v/t51.82787-15/1_2_3_n.jpg?stp=dst-jpg_e35'',
        ''https://www.instagram.com/p/CxYz123/'',
        ''https://scontent.cdninstagram.com/v/t51.82787-15/4_5_6_n.jpg''])
     500 \<lparr>files = {''0002_image_0.jpg''}, trace = []\<rparr>) =
   Some (\<lparr>successful = 2, failed = 1, total = 3\<rparr>,
     [(True, Some ''0001_1_2_3_n.jpg'', None), (True, Some ''0002_image_0.jpg'', None),
      (False, None, Some (Raised RetryError))])"
proof -
  have "read_urls [] = []"
    by (simp add: read_urls_def)
  moreover have "fst (download_images_from_file (example_world 0) [] 500
      \<lparr>files = {}, trace = []\<rparr>) = None"
    by (simp add: download_images_from_file_def read_urls_def)
  moreover have "fst (download_images_from_file (example_world 0)
     (save_urls_to_file
       [''https://scontent.cdninstagram.com/v/t51.82787-15/1_2_3_n.jpg?stp=dst-jpg_e35'',
        ''https://www.instagram.com/p/CxYz123/'',
        ''https://scontent.cdninstagram.com/v/t51.82787-15/4_5_6_n.jpg''])
     500 \<lparr>files = {''0002_image_0.jpg''}, trace = []\<rparr>) =
   Some (\<lparr>successful = 2, failed = 1, total = 3\<rparr>,
     [(True, Some ''0001_1_2_3_n.jpg'', None), (True, Some ''0002_image_0.jpg'', None),
      (False, None, Some (Raised RetryError))])"
    by code_simp
  ultimately show ?thesis
    by simp
qed

text \<open>
  C6 (amended). Let a second run read the same URL file and find the output directory
  as the first run left it, and let both runs derive the same file names (the same
  \<open>urlparse\<close>, and for the URLs named by the hash fallback the same hash value modulo
  1000000). Then every URL that succeeded in the first run succeeds in the second with
  the same outcome and without a request; the second run sends requests only for URLs
  that failed in the first run; and its success count is at least the first run's. When
  the first run had no failure, the second run sends no request at all, sleeps never,
  leaves the directory unchanged and has the same success count.
\<close>

theorem second_run_skips_saved_files:
  assumes "urlparse_path w2 = urlparse_path w1"
    and "\<forall>u\<in>set (read_urls text). uses_hash_fallback w1 u \<longrightarrow>
           str_hash w2 u mod 1000000 = str_hash w1 u mod 1000000"
    and "download_images_from_file w1 text d1 st0 = (Some (s1, outs1), st1)"
    and "download_images_from_file w2 text d2 (st1\<lparr>trace := []\<rparr>) = (r2, st2)"
  shows "\<exists>s2 outs2. r2 = Some (s2, outs2) \<and>
      total s2 = total s1 \<and> successful s1 \<le> successful s2 \<and>
      (\<forall>(a, b)\<in>set (zip outs1 outs2). fst a \<longrightarrow> b = a) \<and>
      (\<forall>e\<in>set (trace st2). is_request e \<longrightarrow>
         (\<exists>(u, a)\<in>set (zip (read_urls text) outs1). e = Request u \<and> \<not> fst a)) \<and>
      (failed s1 = 0 \<longrightarrow>
         requests_sent st2 = 0 \<and> trace st2 = [] \<and> files st2 = files st1 \<and>
         successful s2 = successful s1 \<and> failed s2 = 0)"
proof -
  let ?urls = "read_urls text"
  from assms(3) have ne: "?urls \<noteq> []"
    by (auto simp: download_images_from_file_def Let_def split: if_splits)
  obtain o1 sA where a1: "download_all w1 d1 1 ?urls st0 = (o1, sA)"
    by (cases "download_all w1 d1 1 ?urls st0")
  obtain o2 sB where a2: "download_all w2 d2 1 ?urls (st1\<lparr>trace := []\<rparr>) = (o2, sB)"
    by (cases "download_all w2 d2 1 ?urls (st1\<lparr>trace := []\<rparr>)")
  let ?S1 = "\<lparr>successful = length (filter fst o1),
      failed = length (filter (\<lambda>out. \<not> fst out) o1), total = length ?urls\<rparr>"
  let ?S2 = "\<lparr>successful = length (filter fst o2),
      failed = length (filter (\<lambda>out. \<not> fst out) o2), total = length ?urls\<rparr>"
  have e1: "download_images_from_file w1 text d1 st0 = (Some (?S1, o1), sA)"
    using download_images_from_file_nonempty [OF ne, of w1 d1 st0] a1 by simp
  have "(Some (s1, outs1), st1) = (Some (?S1, o1), sA)"
    using assms(3) e1 by (rule trans [OF sym])
  then have r1: "s1 = ?S1" "outs1 = o1" "st1 = sA"
    by simp_all
  have e2: "download_images_from_file w2 text d2 (st1\<lparr>trace := []\<rparr>) = (Some (?S2, o2), sB)"
    using download_images_from_file_nonempty [OF ne, of w2 d2 "st1\<lparr>trace := []\<rparr>"] a2 by simp
  have "(r2, st2) = (Some (?S2, o2), sB)"
    using assms(4) e2 by (rule trans [OF sym])
  then have r2: "r2 = Some (?S2, o2)" "st2 = sB"
    by simp_all
  have names: "\<forall>u\<in>set ?urls. \<forall>j. get_filename_from_url w2 u j = get_filename_from_url w1 u j"
    using assms(1,2) same_filename by blast
  have sub: "files sA \<subseteq> files (st1\<lparr>trace := []\<rparr>)"
    using r1(3) by simp
  from rerun_download_all [OF names a1 a2 sub] obtain evs where k:
    "length (filter fst o1) \<le> length (filter fst o2)"
    "\<forall>(a, b)\<in>set (zip o1 o2). fst a \<longrightarrow> b = a"
    "trace sB = evs"
    "\<forall>e\<in>set evs. is_request e \<longrightarrow> (\<exists>(u, a)\<in>set (zip ?urls o1). e = Request u \<and> \<not> fst a)"
    "(\<forall>a\<in>set o1. fst a) \<longrightarrow> sB = st1\<lparr>trace := []\<rparr> \<and> o2 = o1"
    by auto
  have last: "requests_sent st2 = 0 \<and> trace st2 = [] \<and> files st2 = files st1 \<and>
      length (filter fst o2) = length (filter fst o1) \<and>
      length (filter (\<lambda>out. \<not> fst out) o2) = 0" if "failed s1 = 0"
  proof -
    from that r1(1) have "\<forall>a\<in>set o1. fst a"
      by (auto simp: filter_empty_conv)
    with k(5) have "sB = st1\<lparr>trace := []\<rparr>" "o2 = o1"
      by simp_all
    with r2(2) that r1(1) show ?thesis
      by (simp add: requests_sent_def)
  qed
  show ?thesis
    using r1 r2 k(1,2,3,4) last by simp
qed

theorem second_run_skips_saved_files_witness:
  "download_images_from_file (example_world 0)
     (save_urls_to_file
        [''https://scontent.cdninstagram.com/v/t51.82787-15/1_2_3_n.jpg?stp=dst-jpg_e35''])
     500 \<lparr>files = {}, trace = []\<rparr> =
     (Some (\<lparr>successful = 1, failed = 0, total = 1\<rparr>, [(True, Some ''0001_1_2_3_n.jpg'', None)]),
      \<lparr>files = {''0001_1_2_3_n.jpg''},
       trace = [Request ''https://scontent.cdninstagram.com/v/t51.82787-15/1_2_3_n.jpg?stp=dst-jpg_e35'',
         RateSleep 500]\<rparr>) \<and>
   requests_sent (snd (download_images_from_file (example_world 1)
     (save_urls_to_file
        [''https://scontent.cdninstagram.com/v/t51.82787-15/1_2_3_n.jpg?stp=dst-jpg_e35''])
     250 \<lparr>files = {''0001_1_2_3_n.jpg''}, trace = []\<rparr>)) = 0 \<and>
   (\<exists>s2 outs2. fst (download_images_from_file (example_world 1)
     (save_urls_to_file
        [''https://scontent.cdninstagram.com/v/t51.82787-15/1_2_3_n.jpg?stp=dst-jpg_e35''])
     250 \<lparr>files = {''0001_1_2_3_n.jpg''}, trace = []\<rparr>) = Some (s2, outs2) \<and>
     successful s2 = 1 \<and> failed s2 = 0)"
proof -
  let ?a = "''https://scontent.cdninstagram.com/v/t51.82787-15/1_2_3_n.jpg?stp=dst-jpg_e35''"
  let ?text = "save_urls_to_file [?a]"
  let ?st1 = "\<lparr>files = {''0001_1_2_3_n.jpg''}, trace = [Request ?a, RateSleep 500]\<rparr>"
  let ?s1 = "\<lparr>successful = 1, failed = 0, total = 1\<rparr>"
  have run1: "download_images_from_file (example_world 0) ?text 500 \<lparr>files = {}, trace = []\<rparr> =
      (Some (?s1, [(True, Some ''0001_1_2_3_n.jpg'', None)]), ?st1)"
    by code_simp
  have st: "?st1\<lparr>trace := []\<rparr> = \<lparr>files = {''0001_1_2_3_n.jpg''}, trace = []\<rparr>"
    by simp
  have paths: "urlparse_path (example_world 1) = urlparse_path (example_world 0)"
    by (simp add: example_world_sel)
  have urls: "read_urls ?text = [?a]"
    by (rule read_saved_urls) code_simp
  have "\<not> uses_hash_fallback (example_world 0) ?a"
    by code_simp
  then have hashes: "\<forall>u\<in>set (read_urls ?text). uses_hash_fallback (example_world 0) u \<longrightarrow>
      str_hash (example_world 1) u mod 1000000 = str_hash (example_world 0) u mod 1000000"
    unfolding urls by simp
  obtain r2 st2 where run2: "download_images_from_file (example_world 1) ?text 250
      (?st1\<lparr>trace := []\<rparr>) = (r2, st2)"
    by (cases "download_images_from_file (example_world 1) ?text 250 (?st1\<lparr>trace := []\<rparr>)")
  from second_run_skips_saved_files [OF paths hashes run1 run2]
  obtain s2 outs2 where "r2 = Some (s2, outs2)" "requests_sent st2 = 0"
    "successful s2 = 1" "failed s2 = 0"
    by auto
  with run1 run2 show ?thesis
    unfolding st by simp
qed

text \<open>
  C6 as stated fails: a URL answered with 404 fails in the first run and leaves no file,
  so the second run requests it again.
\<close>

theorem failed_download_is_fetched_again:
  "download_images_from_file (example_world 0)
     (save_urls_to_file [''https://scontent.cdninstagram.com/v/t51.82787-15/7_8_9_n.jpg''])
     500 \<lparr>files = {}, trace = []\<rparr> =
     (Some (\<lparr>successful = 0, failed = 1, total = 1\<rparr>,
        [(False, None, Some (Raised (HTTPError 404)))]),
      \<lparr>files = {},
       trace = [Request ''https://scontent.cdninstagram.com/v/t51.82787-15/7_8_9_n.jpg'']\<rparr>) \<and>
   requests_sent (snd (download_images_from_file (example_world 0)
     (save_urls_to_file [''https://scontent.cdninstagram.com/v/t51.82787-15/7_8_9_n.jpg''])
     500 (\<lparr>files = {},
       trace = [Request ''https://scontent.cdninstagram.com/v/t51.82787-15/7_8_9_n.jpg'']\<rparr>
         \<lparr>trace := []\<rparr>))) = 1"
  by code_simp

text \<open>
  C8. \<open>download_image\<close> sleeps only after it has saved a file. For a URL file with an
  HTML page, a 404 and an image, the three requests follow each other without a sleep
  between them; the only sleep comes after the image is saved.
\<close>

theorem failures_are_not_followed_by_sleep:
  "download_images_from_file (example_world 0)
     (save_urls_to_file
       [''https://www.instagram.com/p/CxYz123/'',
        ''https://scontent.cdninstagram.com/v/t51.82787-15/7_8_9_n.jpg'',
        ''https://scontent.cdninstagram.com/v/t51.82787-15/1_2_3_n.jpg?stp=dst-jpg_e35''])
     500 \<lparr>files = {}, trace = []\<rparr> =
     (Some (\<lparr>successful = 1, failed = 2, total = 3\<rparr>,
        [(False, None, Some (NotAnImage ''text/html'')),
         (False, None, Some (Raised (HTTPError 404))),
         (True, Some ''0003_1_2_3_n.jpg'', None)]),
      \<lparr>files = {''0003_1_2_3_n.jpg''},
       trace = [Request ''https://www.instagram.com/p/CxYz123/'',
         Request ''https://scontent.cdninstagram.com/v/t51.82787-15/7_8_9_n.jpg'',
         Request ''https://scontent.cdninstagram.com/v/t51.82787-15/1_2_3_n.jpg?stp=dst-jpg_e35'',
         RateSleep 500]\<rparr>)"
  by code_simp

end
